theory Spec2Isabelle
  imports Complex_Main "HOL-Library.Char_ord" "HOL-Library.List_Lexorder"
begin

section \<open>HIPPO: Resnik similarity between patient cases (HIPPO\_distance.py)\<close>

text \<open>
  The script reads an ontology and a table of cases, maps every concept of a case to
  its ontology ancestors, derives an information content for every ancestor from the
  corpus, scores every pair of cases (\<open>resnik\<close>) and writes the matrix of scores.
  The embedding below follows the script line by line. Python exceptions are values of
  \<open>py_error\<close>; a function that can raise returns \<open>py_error + 'a\<close>. Floating-point
  numbers are modelled by real numbers (line 88, which rounds to two places, by the
  doubles among them), and a missing value (pandas NaN) by \<open>None\<close>.
\<close>

subsection \<open>Exceptions and comprehensions\<close>

datatype py_error = KeyError | ValueError | ZeroDivisionError | AttributeError

text \<open>A list comprehension whose body can raise: the first exception ends it.\<close>

fun traverse :: "('a \<Rightarrow> py_error + 'b) \<Rightarrow> 'a list \<Rightarrow> py_error + 'b list" where
  "traverse f [] = Inr []"
| "traverse f (x # xs) =
     (case f x of
        Inl e \<Rightarrow> Inl e
      | Inr y \<Rightarrow> (case traverse f xs of Inl e \<Rightarrow> Inl e | Inr ys \<Rightarrow> Inr (y # ys)))"

text \<open>Python's \<open>max\<close> of a list: \<open>ValueError\<close> on the empty list.\<close>

fun py_max :: "real list \<Rightarrow> py_error + real" where
  "py_max [] = Inl ValueError"
| "py_max (x # xs) = Inr (fold max xs x)"

subsection \<open>The ontology and the ancestor lookup (lines 39--51)\<close>

type_synonym concept = string

text \<open>
  The ontology object is given by the library that parsed the catalog. The script uses
  it in one expression only, \<open>[i.id for i in hpo[term].rparents()]\<close>, so the ontology is
  a parameter: \<open>hpo term = Some ps\<close> when the term is in the catalog and \<open>ps\<close> are the
  identifiers of its recursive parents (its parents, their parents and so on; none for
  a root), \<open>hpo term = None\<close> when \<open>hpo[term]\<close> raises \<open>KeyError\<close>.
\<close>

type_synonym ontology = "concept \<Rightarrow> concept list option"

definition map_ancs :: "ontology \<Rightarrow> concept \<Rightarrow> concept list" where
  "map_ancs hpo term = (case hpo term of Some ps \<Rightarrow> ps | None \<Rightarrow> [])"

text \<open>\<open>bool(xs)\<close> of a Python list.\<close>

definition truthy :: "'a list \<Rightarrow> bool" where
  "truthy xs = (xs \<noteq> [])"

definition obsolete_terms :: "ontology \<Rightarrow> concept list \<Rightarrow> bool" where
  "obsolete_terms hpo term_list =
     (if list_all (\<lambda>i. truthy (map_ancs hpo i)) term_list then False else True)"

subsection \<open>Data frames of numbers\<close>

text \<open>
  A frame of numbers has row labels, positional column labels and one list of cells for
  each row; a cell is a number or missing. \<open>DataFrame\<close> is the constructor applied to a
  list of rows: the columns are numbered up to the longest row and shorter rows are
  padded with missing cells.
\<close>

record 'i frame =
  index :: "'i list"
  columns :: "nat list"
  cells :: "real option list list"

definition ncols :: "'a list list \<Rightarrow> nat" where
  "ncols rows = fold max (map length rows) 0"

definition DataFrame :: "real list list \<Rightarrow> nat frame" where
  "DataFrame rows =
     \<lparr> index = [0 ..< length rows],
       columns = [0 ..< ncols rows],
       cells = map (\<lambda>r. map Some r @ replicate (ncols rows - length r) None) rows \<rparr>"

text \<open>Reductions skip missing cells; the maximum of no number is missing, the sum is 0.\<close>

definition nanmax :: "real option list \<Rightarrow> real option" where
  "nanmax cs = (case List.map_filter id cs of [] \<Rightarrow> None | x # xs \<Rightarrow> Some (fold max xs x))"

definition nansum :: "real option list \<Rightarrow> real" where
  "nansum cs = sum_list (List.map_filter id cs)"

definition max_axis0 :: "'i frame \<Rightarrow> real option list" where
  "max_axis0 f = map (\<lambda>j. nanmax (map (\<lambda>r. r ! j) (cells f))) (columns f)"

definition max_axis1 :: "'i frame \<Rightarrow> real option list" where
  "max_axis1 f = map nanmax (cells f)"

subsection \<open>The pairwise score (lines 53--73)\<close>

text \<open>
  One cell of the inner matrix:
  \<open>max([IC[i] for i in (set(map_ancs(i)) & set(map_ancs(j)))])\<close>. A common ancestor
  without an information content raises \<open>KeyError\<close>, no common ancestor at all makes
  \<open>max\<close> raise \<open>ValueError\<close>.
\<close>

definition common_ancs :: "ontology \<Rightarrow> concept \<Rightarrow> concept \<Rightarrow> concept list" where
  "common_ancs hpo i j =
     filter (\<lambda>a. a \<in> set (map_ancs hpo j)) (remdups (map_ancs hpo i))"

definition getitem :: "(concept \<Rightarrow> real option) \<Rightarrow> concept \<Rightarrow> py_error + real" where
  "getitem IC a = (case IC a of None \<Rightarrow> Inl KeyError | Some v \<Rightarrow> Inr v)"

definition mica :: "ontology \<Rightarrow> (concept \<Rightarrow> real option) \<Rightarrow> concept \<Rightarrow> concept \<Rightarrow> py_error + real" where
  "mica hpo IC i j =
     (case traverse (getitem IC) (common_ancs hpo i j) of
        Inl e \<Rightarrow> Inl e
      | Inr vs \<Rightarrow> py_max vs)"

definition resnik_matrix ::
  "ontology \<Rightarrow> (concept \<Rightarrow> real option) \<Rightarrow> concept list \<Rightarrow> concept list \<Rightarrow> py_error + real list list" where
  "resnik_matrix hpo IC HPO_list_1 HPO_list_2 =
     traverse (\<lambda>i. traverse (\<lambda>j. mica hpo IC i j) HPO_list_2) HPO_list_1"

definition simmax :: "nat frame \<Rightarrow> real" where
  "simmax f = 0.5 * (nansum (max_axis0 f) + nansum (max_axis1 f))"

definition resnik ::
  "ontology \<Rightarrow> (concept \<Rightarrow> real option) \<Rightarrow> concept list \<Rightarrow> concept list \<Rightarrow> py_error + real" where
  "resnik hpo IC HPO_list_1 HPO_list_2 =
     (case resnik_matrix hpo IC HPO_list_1 HPO_list_2 of
        Inl e \<Rightarrow> Inl e
      | Inr m \<Rightarrow> Inr (simmax (DataFrame m)))"

subsection \<open>Loading the table (lines 78--85)\<close>

text \<open>
  A row of the table that \<open>read_csv\<close> returns has an identifier and a comma-separated
  string of concepts; either may be missing. The identifiers have the type that
  \<open>read_csv\<close> gives their column, numbers or strings, with its order. A row of the
  working table has the columns \<open>ID\<close>, \<open>HPO\<close> and \<open>ancs\<close>; \<open>HPO\<close> holds one concept
  before the rows are grouped and a list afterwards.
\<close>

type_synonym 'i raw_row = "'i option \<times> string option"

record ('i, 'h) row =
  ID :: 'i
  HPO :: 'h
  ancs :: "concept list"

definition dropna_input :: "'i raw_row list \<Rightarrow> ('i \<times> string) list" where
  "dropna_input df =
     List.map_filter (\<lambda>r. case r of (Some i, Some h) \<Rightarrow> Some (i, h) | _ \<Rightarrow> None) df"

text \<open>\<open>str.split(sep)\<close> for a separator of one character: never an empty list.\<close>

fun str_split :: "char \<Rightarrow> string \<Rightarrow> string list" where
  "str_split sep [] = [[]]"
| "str_split sep (c # cs) =
     (if c = sep then [] # str_split sep cs
      else (case str_split sep cs of [] \<Rightarrow> [[c]] | w # ws \<Rightarrow> (c # w) # ws))"

definition explode :: "('i \<times> concept list) list \<Rightarrow> ('i \<times> concept) list" where
  "explode df = concat (map (\<lambda>(i, hs). map (\<lambda>h. (i, h)) hs) df)"

text \<open>
  A column is a column of strings when the table has no row or some cell of the column
  is a string. A column of a table with rows whose cells are all missing is read as a
  column of numbers; it stays one when line 78 drops the rows, and \<open>.str\<close> in line 81
  raises \<open>AttributeError\<close> on it.
\<close>

definition object_column :: "string option list \<Rightarrow> bool" where
  "object_column cs = (cs = [] \<or> list_ex (\<lambda>c. c \<noteq> None) cs)"

definition load :: "ontology \<Rightarrow> 'i raw_row list \<Rightarrow> py_error + ('i, concept) row list" where
  "load hpo input =
     (if \<not> object_column (map snd input) then Inl AttributeError
      else Inr (map (\<lambda>(i, h). \<lparr> ID = i, HPO = h, ancs = map_ancs hpo h \<rparr>)
                 (explode (map (\<lambda>(i, h). (i, str_split CHR '','' h)) (dropna_input input)))))"

subsection \<open>The share of unmapped concepts (line 88)\<close>

text \<open>
  The share is rounded to two places, which makes the last bit of a double visible, so
  line 88 is modelled in double arithmetic. A double is the real number it stands for,
  and \<open>fl x\<close> is the double nearest to \<open>x\<close>, with a tie going to the even mantissa (53
  bits, subnormal below \<open>2 powi - 1022\<close>; the numbers of line 88 are far below the
  largest double).
\<close>

definition round_half_even :: "real \<Rightarrow> int" where
  "round_half_even x =
     (let f = \<lfloor>x\<rfloor>; d = x - of_int f
      in if d < 1 / 2 then f else if 1 / 2 < d then f + 1 else if even f then f else f + 1)"

definition fl :: "real \<Rightarrow> real" where
  "fl x =
     (if x = 0 then 0
      else let e = max \<lfloor>log 2 \<bar>x\<bar>\<rfloor> (- 1022); ulp = 2 powi (e - 52)
           in of_int (round_half_even (x / ulp)) * ulp)"

text \<open>
  \<open>a / b\<close> on two integers is \<open>ZeroDivisionError\<close> or the double nearest to the
  quotient; \<open>round(x, n)\<close> on a double is the double nearest to the decimal with \<open>n\<close>
  places that is nearest to \<open>x\<close>, ties to the even digit.
\<close>

definition truediv :: "nat \<Rightarrow> nat \<Rightarrow> py_error + real" where
  "truediv a b = (if b = 0 then Inl ZeroDivisionError else Inr (fl (real a / real b)))"

definition py_round :: "real \<Rightarrow> nat \<Rightarrow> real" where
  "py_round x n = fl (of_int (round_half_even (x * 10 ^ n)) / 10 ^ n)"

definition percent :: "('i, concept) row list \<Rightarrow> py_error + real" where
  "percent df =
     (case truediv (length (filter (\<lambda>r. \<not> truthy (ancs r)) df))
             (length (filter (\<lambda>r. truthy (ancs r)) df)) of
        Inl e \<Rightarrow> Inl e
      | Inr q \<Rightarrow> Inr (py_round (fl (q * 100)) 2))"

subsection \<open>One row for each case (lines 91--100)\<close>

text \<open>\<open>groupby\<close> sorts the keys and keeps the order of the rows inside a group.\<close>

definition groupby_ID :: "('i::linorder, 'h) row list \<Rightarrow> ('i \<times> ('i, 'h) row list) list" where
  "groupby_ID df = map (\<lambda>k. (k, filter (\<lambda>r. ID r = k) df)) (sort (remdups (map ID df)))"

definition np_unique :: "concept list \<Rightarrow> concept list" where
  "np_unique xs = sort (remdups xs)"

definition drop_unmapped :: "('i, concept) row list \<Rightarrow> ('i, concept) row list" where
  "drop_unmapped df = filter (\<lambda>r. truthy (ancs r)) df"

definition flatten :: "('i::linorder, concept) row list \<Rightarrow> ('i, concept list) row list" where
  "flatten df =
     map (\<lambda>(k, g). \<lparr> ID = k, HPO = map HPO g, ancs = concat (map ancs g) \<rparr>) (groupby_ID df)"

definition aggregate :: "('i::linorder, concept) row list \<Rightarrow> ('i, concept list) row list" where
  "aggregate df =
     map (\<lambda>r. r\<lparr> HPO := np_unique (HPO r) \<rparr>)
       (map (\<lambda>r. r\<lparr> ancs := np_unique (ancs r) \<rparr>)
          (map (\<lambda>r. r\<lparr> ancs := HPO r @ ancs r \<rparr>)
             (flatten (drop_unmapped df))))"

subsection \<open>Information content (lines 110--112)\<close>

definition all_ancs :: "('i, concept list) row list \<Rightarrow> concept list" where
  "all_ancs df = concat (map ancs df)"

definition value_counts :: "concept list \<Rightarrow> concept \<Rightarrow> real option" where
  "value_counts xs c =
     (if c \<in> set xs then Some (real (count_list xs c) / real (length xs)) else None)"

definition information_content :: "concept list \<Rightarrow> concept \<Rightarrow> real option" where
  "information_content xs c = map_option (\<lambda>freq. - 1 * log 2 freq) (value_counts xs c)"

subsection \<open>The matrix of all pairs (lines 120--130)\<close>

definition all_pairs ::
  "ontology \<Rightarrow> (concept \<Rightarrow> real option) \<Rightarrow> concept list list \<Rightarrow> py_error + real list list" where
  "all_pairs hpo IC hs = traverse (\<lambda>j. traverse (\<lambda>i. resnik hpo IC j i) hs) hs"

text \<open>
  \<open>distance.loc[r, c] = v\<close> for a column label \<open>c\<close> of the frame: the cell of the row
  labelled \<open>r\<close> is overwritten; a label that is not in the index adds a row whose other
  cells are missing.
\<close>

definition loc_set :: "nat frame \<Rightarrow> nat \<Rightarrow> nat \<Rightarrow> real \<Rightarrow> nat frame" where
  "loc_set f r c v =
     (if r \<in> set (index f)
      then f\<lparr> cells := map (\<lambda>(l, cs). if l = r then cs[c := Some v] else cs)
                          (zip (index f) (cells f)) \<rparr>
      else f\<lparr> index := index f @ [r],
              cells := cells f @ [(replicate (length (columns f)) None)[c := Some v]] \<rparr>)"

definition zero_diagonal :: "nat frame \<Rightarrow> nat frame" where
  "zero_diagonal f = fold (\<lambda>i d. loc_set d i i 0) (columns f) f"

definition dropna :: "'i frame \<Rightarrow> 'i frame" where
  "dropna f =
     (let keep = filter (\<lambda>(l, cs). list_all (\<lambda>c. c \<noteq> None) cs) (zip (index f) (cells f))
      in f\<lparr> index := map fst keep, cells := map snd keep \<rparr>)"

definition set_index :: "'i list \<Rightarrow> nat frame \<Rightarrow> py_error + 'i frame" where
  "set_index keys f =
     (if length keys \<noteq> length (index f) then Inl ValueError
      else Inr \<lparr> index = keys, columns = columns f, cells = cells f \<rparr>)"

text \<open>
  The written table: a header line with the column labels, then one line for each row.
  With \<open>with_index\<close> every line starts with the row label (the header with an empty
  field); the script passes \<open>index=False\<close>.
\<close>

datatype 'i field = Name 'i | Label nat | Number real | Empty

definition field_of :: "real option \<Rightarrow> 'i field" where
  "field_of c = (case c of None \<Rightarrow> Empty | Some v \<Rightarrow> Number v)"

definition to_csv :: "bool \<Rightarrow> 'i frame \<Rightarrow> 'i field list list" where
  "to_csv with_index f =
     ((if with_index then [Empty] else []) @ map Label (columns f)) #
     map (\<lambda>(l, cs). (if with_index then [Name l] else []) @ map field_of cs)
       (zip (index f) (cells f))"

subsection \<open>The script\<close>

record 'i run =
  percent_warning :: "real option"
  obsolete_warning :: bool
  distance :: "'i frame"
  written :: "'i field list list"

definition main :: "ontology \<Rightarrow> 'i::linorder raw_row list \<Rightarrow> py_error + 'i run" where
  "main hpo input =
     (case load hpo input of
        Inl e \<Rightarrow> Inl e
      | Inr df \<Rightarrow>
          (case percent df of
             Inl e \<Rightarrow> Inl e
           | Inr p \<Rightarrow>
               (let df = aggregate df;
                    obsolete = list_ex (obsolete_terms hpo) (map HPO df);
                    IC = information_content (all_ancs df)
                in case all_pairs hpo IC (map HPO df) of
                     Inl e \<Rightarrow> Inl e
                   | Inr m \<Rightarrow>
                       (case set_index (map ID df) (dropna (zero_diagonal (DataFrame m))) of
                          Inl e \<Rightarrow> Inl e
                        | Inr d \<Rightarrow>
                            Inr \<lparr> percent_warning = (if 0 < p then Some p else None),
                                  obsolete_warning = obsolete,
                                  distance = d,
                                  written = to_csv False d \<rparr>))))"

subsection \<open>A small ontology and corpus\<close>

text \<open>
  Two trees: \<open>R\<close> with the children \<open>A\<close> and \<open>B\<close>, where \<open>C\<close> is a child of \<open>A\<close>, and
  \<open>Q\<close> with the child \<open>D\<close>. The identifier \<open>X\<close> is not in the catalog.
\<close>

definition hpo_ex :: ontology where
  "hpo_ex = map_of
     [(''C'', [''A'', ''R'']), (''B'', [''R'']), (''A'', [''R'']), (''R'', []),
      (''D'', [''Q'']), (''Q'', [])]"

definition IC_ex :: "concept \<Rightarrow> real option" where
  "IC_ex = map_of [(''A'', 2), (''B'', 2), (''C'', 2), (''R'', 1)]"

text \<open>
  An input table with a missing identifier, a missing concept list, an unknown concept
  and one case on two rows; the same table under other identifiers; two cases in
  different trees; a table none of whose concepts has an ancestor; a table with a
  case whose only concept is unknown; a table whose only concept is unknown; and a table
  without any concept list.
\<close>

definition input_ex :: "string raw_row list" where
  "input_ex =
     [(Some ''y'', Some ''B,X''), (Some ''x'', Some ''C''), (None, Some ''A''),
      (Some ''z'', None), (Some ''y'', Some ''C'')]"

definition input_renamed :: "string raw_row list" where
  "input_renamed =
     [(Some ''q'', Some ''B,X''), (Some ''p'', Some ''C''), (None, Some ''A''),
      (Some ''r'', None), (Some ''q'', Some ''C'')]"

definition input_disjoint :: "string raw_row list" where
  "input_disjoint = [(Some ''x'', Some ''C''), (Some ''y'', Some ''D'')]"

definition input_unmapped :: "string raw_row list" where
  "input_unmapped = [(Some ''x'', Some ''X''), (Some ''y'', Some ''R'')]"

definition input_obsolete :: "string raw_row list" where
  "input_obsolete = [(Some ''w'', Some ''X''), (Some ''x'', Some ''C'')]"

definition input_unknown :: "string raw_row list" where
  "input_unknown = [(Some ''x'', Some ''X'')]"

definition input_missing :: "string raw_row list" where
  "input_missing = [(Some ''x'', None)]"

definition df_ex :: "(string, concept) row list" where
  "df_ex =
     [\<lparr>ID = ''y'', HPO = ''B'', ancs = [''R'']\<rparr>,
      \<lparr>ID = ''y'', HPO = ''X'', ancs = []\<rparr>,
      \<lparr>ID = ''x'', HPO = ''C'', ancs = [''A'', ''R'']\<rparr>,
      \<lparr>ID = ''y'', HPO = ''C'', ancs = [''A'', ''R'']\<rparr>]"

definition cells_ex :: "real option list list" where
  "cells_ex =
     [[Some 0, Some (- (3 * log 2 (2 / 7) / 2))],
      [Some (- (3 * log 2 (2 / 7) / 2)), Some 0]]"

definition written_ex :: "string field list list" where
  "written_ex =
     [[Label 0, Label 1],
      [Number 0, Number (- (3 * log 2 (2 / 7) / 2))],
      [Number (- (3 * log 2 (2 / 7) / 2)), Number 0]]"

definition run_ex :: "string run" where
  "run_ex =
     \<lparr> percent_warning = Some (fl (3333 / 100)),
       obsolete_warning = False,
       distance = \<lparr> index = [''x'', ''y''], columns = [0, 1], cells = cells_ex \<rparr>,
       written = written_ex \<rparr>"

section \<open>Properties\<close>

subsection \<open>Comprehensions and cells\<close>

lemma traverse_Inr_D:
  "traverse f xs = Inr ys \<Longrightarrow> list_all2 (\<lambda>x y. f x = Inr y) xs ys"
  by (induction xs arbitrary: ys) (auto split: sum.splits)

lemma traverse_Inr_I:
  "list_all2 (\<lambda>x y. f x = Inr y) xs ys \<Longrightarrow> traverse f xs = Inr ys"
  by (induction xs ys rule: list_all2_induct) auto

lemma traverse_Inr_iff:
  "traverse f xs = Inr ys \<longleftrightarrow> list_all2 (\<lambda>x y. f x = Inr y) xs ys"
  using traverse_Inr_D traverse_Inr_I by blast

lemma traverse_getitem_total:
  "(\<forall>a\<in>set xs. IC a \<noteq> None) \<Longrightarrow> traverse (getitem IC) xs = Inr (map (\<lambda>a. the (IC a)) xs)"
  by (induction xs) (auto simp: getitem_def)

lemma traverse_getitem_Inr:
  "traverse (getitem IC) xs = Inr vs \<Longrightarrow> (\<forall>a\<in>set xs. IC a \<noteq> None)"
  by (induction xs arbitrary: vs) (auto simp: getitem_def split: sum.splits option.splits)

lemma traverse_getitem:
  "traverse (getitem IC) xs = Inr vs \<longleftrightarrow> (\<forall>a\<in>set xs. IC a \<noteq> None) \<and> vs = map (\<lambda>a. the (IC a)) xs"
  using traverse_getitem_total [of xs IC] traverse_getitem_Inr [of IC xs vs] by auto

lemma py_max_Inr: "py_max vs = Inr v \<longleftrightarrow> vs \<noteq> [] \<and> v = Max (set vs)"
proof (cases vs)
  case Nil
  then show ?thesis by simp
next
  case (Cons x xs)
  have "fold max xs x = Max (set (x # xs))"
    by (rule Max.set_eq_fold [symmetric])
  with Cons show ?thesis by auto
qed

lemma set_common_ancs: "set (common_ancs hpo i j) = set (map_ancs hpo i) \<inter> set (map_ancs hpo j)"
  by (auto simp: common_ancs_def)

lemma mica_Inr:
  "mica hpo IC i j = Inr v \<longleftrightarrow>
     (\<forall>a \<in> set (map_ancs hpo i) \<inter> set (map_ancs hpo j). IC a \<noteq> None) \<and>
     set (map_ancs hpo i) \<inter> set (map_ancs hpo j) \<noteq> {} \<and>
     v = Max ((\<lambda>a. the (IC a)) ` (set (map_ancs hpo i) \<inter> set (map_ancs hpo j)))"
proof -
  have "mica hpo IC i j = Inr v \<longleftrightarrow>
      (\<forall>a \<in> set (common_ancs hpo i j). IC a \<noteq> None) \<and> common_ancs hpo i j \<noteq> [] \<and>
      v = Max ((\<lambda>a. the (IC a)) ` set (common_ancs hpo i j))"
  proof (cases "traverse (getitem IC) (common_ancs hpo i j)")
    case (Inl e)
    then show ?thesis
      using traverse_getitem_total [of "common_ancs hpo i j" IC] by (auto simp: mica_def)
  next
    case (Inr vs)
    then have all: "\<forall>a \<in> set (common_ancs hpo i j). IC a \<noteq> None"
      and vs: "vs = map (\<lambda>a. the (IC a)) (common_ancs hpo i j)"
      by (simp_all add: traverse_getitem)
    have "mica hpo IC i j = py_max vs"
      using Inr by (simp add: mica_def)
    then show ?thesis
      using all by (simp add: py_max_Inr vs)
  qed
  moreover have "common_ancs hpo i j \<noteq> [] \<longleftrightarrow> set (common_ancs hpo i j) \<noteq> {}"
    by simp
  ultimately show ?thesis
    unfolding set_common_ancs by blast
qed

lemma mica_commute: "mica hpo IC i j = Inr v \<Longrightarrow> mica hpo IC j i = Inr v"
  unfolding mica_Inr by (simp add: Int_commute)


lemma resnik_matrix_Inr_iff:
  "resnik_matrix hpo IC A B = Inr m \<longleftrightarrow>
     length m = length A \<and>
     (\<forall>i<length A. length (m ! i) = length B \<and>
        (\<forall>j<length B. mica hpo IC (A ! i) (B ! j) = Inr (m ! i ! j)))"
  unfolding resnik_matrix_def traverse_Inr_iff list_all2_conv_all_nth by auto

lemma fold_max_rect:
  "\<forall>r\<in>set m. length r = k \<Longrightarrow> fold max (map length m) a = (if m = [] then a else max k a)"
  by (induction m arbitrary: a) auto

lemma ncols_rect:
  assumes "\<forall>r\<in>set m. length r = k"
  shows "ncols m = (if m = [] then 0 else k)"
  unfolding ncols_def using fold_max_rect [OF assms, of 0] by simp

lemma DataFrame_rect:
  assumes "\<forall>r\<in>set m. length r = k"
  shows "cells (DataFrame m) = map (map Some) m"
    and "columns (DataFrame m) = [0 ..< (if m = [] then 0 else k)]"
    and "index (DataFrame m) = [0 ..< length m]"
proof -
  have "\<forall>r\<in>set m. ncols m - length r = 0"
    using assms ncols_rect [OF assms] by auto
  then show "cells (DataFrame m) = map (map Some) m"
    by (simp add: DataFrame_def)
  show "columns (DataFrame m) = [0 ..< (if m = [] then 0 else k)]"
    using ncols_rect [OF assms] by (simp add: DataFrame_def)
  show "index (DataFrame m) = [0 ..< length m]"
    by (simp add: DataFrame_def)
qed

lemma map_filter_id_Some: "List.map_filter id (map Some xs) = xs"
  by (induction xs) simp_all

lemma nansum_Nil: "nansum [] = 0"
  by (simp add: nansum_def)

lemma nansum_replicate_None: "nansum (replicate k None) = 0"
  by (induction k) (simp_all add: nansum_def)

lemma nanmax_Nil: "nanmax [] = None"
  by (simp add: nanmax_def)

lemma axis0_eq_axis1_transposed:
  assumes rect: "\<forall>r\<in>set m. length r = k"
  shows "nansum (max_axis0 (DataFrame m)) =
         nansum (max_axis1 (DataFrame (map (\<lambda>j. map (\<lambda>r. r ! j) m) [0..<k])))"
proof -
  let ?m' = "map (\<lambda>j. map (\<lambda>r. r ! j) m) [0..<k]"
  have rect': "\<forall>r\<in>set ?m'. length r = length m" by auto
  have ax1: "max_axis1 (DataFrame ?m') = map (\<lambda>j. nanmax (map (\<lambda>r. Some (r ! j)) m)) [0..<k]"
    by (simp add: max_axis1_def DataFrame_rect(1) [OF rect'] comp_def)
  show ?thesis
  proof (cases "m = []")
    case True
    then have "max_axis1 (DataFrame ?m') = replicate k None"
      unfolding ax1 by (simp add: nanmax_Nil map_replicate_const)
    moreover have "max_axis0 (DataFrame m) = []"
      using True DataFrame_rect(2) [OF rect] by (simp add: max_axis0_def)
    ultimately show ?thesis
      by (simp add: nansum_replicate_None nansum_Nil)
  next
    case False
    have "max_axis0 (DataFrame m) =
        map (\<lambda>j. nanmax (map (\<lambda>r. r ! j) (map (map Some) m))) [0..<k]"
      using False by (simp add: max_axis0_def DataFrame_rect [OF rect])
    also have "\<dots> = map (\<lambda>j. nanmax (map (\<lambda>r. Some (r ! j)) m)) [0..<k]"
    proof (rule map_cong [OF refl])
      fix j assume "j \<in> set [0..<k]"
      then have "j < k" by simp
      then have "map (\<lambda>r. r ! j) (map (map Some) m) = map (\<lambda>r. Some (r ! j)) m"
        using rect by simp
      then show "nanmax (map (\<lambda>r. r ! j) (map (map Some) m)) = nanmax (map (\<lambda>r. Some (r ! j)) m)"
        by (rule arg_cong)
    qed
    finally show ?thesis by (simp add: ax1)
  qed
qed

lemma transposed_twice:
  assumes rect: "\<forall>r\<in>set m. length r = k"
  shows "map (\<lambda>i. map (\<lambda>r. r ! i) (map (\<lambda>j. map (\<lambda>r. r ! j) m) [0..<k])) [0..<length m] = m"
proof (rule nth_equalityI)
  show "length (map (\<lambda>i. map (\<lambda>r. r ! i) (map (\<lambda>j. map (\<lambda>r. r ! j) m) [0..<k])) [0..<length m]) = length m"
    by simp
next
  fix i
  assume "i < length (map (\<lambda>i. map (\<lambda>r. r ! i) (map (\<lambda>j. map (\<lambda>r. r ! j) m) [0..<k])) [0..<length m])"
  then have i: "i < length m" by simp
  then have len: "length (m ! i) = k" using rect by simp
  have "map (\<lambda>r. r ! i) (map (\<lambda>j. map (\<lambda>r. r ! j) m) [0..<k]) = map (\<lambda>j. m ! i ! j) [0..<k]"
    using i by simp
  also have "\<dots> = m ! i"
    using len map_nth [of "m ! i"] by simp
  finally show "map (\<lambda>i. map (\<lambda>r. r ! i) (map (\<lambda>j. map (\<lambda>r. r ! j) m) [0..<k])) [0..<length m] ! i = m ! i"
    using i by simp
qed

subsection \<open>Symmetry of the pairwise score\<close>

text \<open>
  Claim C1. Whenever the score of two concept lists is defined, the score of the swapped
  lists is defined and is the same number: the inner matrix of the swapped lists is the
  transposed matrix, whose column maxima are the row maxima of the original, and the
  score is half the sum of both sums.
\<close>

theorem resnik_symmetric:
  assumes "resnik hpo IC A B = Inr s"
  shows "resnik hpo IC B A = Inr s"
proof -
  from assms obtain m where m: "resnik_matrix hpo IC A B = Inr m" and s: "s = simmax (DataFrame m)"
    by (auto simp: resnik_def split: sum.splits)
  let ?k = "length B"
  let ?m' = "map (\<lambda>j. map (\<lambda>r. r ! j) m) [0..<?k]"
  from m have len: "length m = length A"
    and row: "\<And>i. i < length A \<Longrightarrow> length (m ! i) = ?k"
    and cell: "\<And>i j. i < length A \<Longrightarrow> j < ?k \<Longrightarrow> mica hpo IC (A ! i) (B ! j) = Inr (m ! i ! j)"
    unfolding resnik_matrix_Inr_iff by auto
  have rect: "\<forall>r\<in>set m. length r = ?k"
    using len row by (auto simp: in_set_conv_nth)
  have rect': "\<forall>r\<in>set ?m'. length r = length m" by auto
  have "resnik_matrix hpo IC B A = Inr ?m'"
    unfolding resnik_matrix_Inr_iff using len cell by (auto intro: mica_commute)
  then have "resnik hpo IC B A = Inr (simmax (DataFrame ?m'))"
    by (simp add: resnik_def)
  moreover have "nansum (max_axis0 (DataFrame m)) = nansum (max_axis1 (DataFrame ?m'))"
    by (rule axis0_eq_axis1_transposed [OF rect])
  moreover have "nansum (max_axis0 (DataFrame ?m')) = nansum (max_axis1 (DataFrame m))"
    using axis0_eq_axis1_transposed [OF rect'] transposed_twice [OF rect] by simp
  ultimately show ?thesis
    by (simp add: s simmax_def)
qed


theorem resnik_symmetric_witness:
  "resnik hpo_ex IC_ex [''C''] [''B'', ''A''] = Inr (3 / 2) \<and>
   resnik hpo_ex IC_ex [''B'', ''A''] [''C''] = Inr (3 / 2)"
proof -
  have h: "resnik hpo_ex IC_ex [''C''] [''B'', ''A''] = Inr (3 / 2)"
    by (simp add: resnik_def resnik_matrix_def mica_def common_ancs_def map_ancs_def
        hpo_ex_def IC_ex_def getitem_def simmax_def DataFrame_def ncols_def max_axis0_def
        max_axis1_def nanmax_def nansum_def)
  show ?thesis
    using h resnik_symmetric [OF h] by simp
qed

subsection \<open>Double arithmetic\<close>

lemma floor_log2_eq:
  assumes "2 powi e \<le> x" and "x < 2 powi (e + 1)"
  shows "\<lfloor>log 2 x\<rfloor> = e"
proof -
  have pos: "0 < x"
    using assms(1) by (smt (verit) zero_less_power_int)
  have a: "2 powr (of_int e) \<le> x"
    using assms(1) by (simp add: powr_real_of_int')
  have b: "x < 2 powr (of_int e + 1)"
    using assms(2) powr_real_of_int' [of 2 "e + 1"] by simp
  have "\<lfloor>log 2 x\<rfloor> = e \<longleftrightarrow> 2 powr (of_int e) \<le> x \<and> x < 2 powr (of_int e + 1)"
    using pos floor_log_eq_powr_iff [of x 2 e] by simp
  with a b show ?thesis by blast
qed

lemma fl_eq:
  assumes "2 powi e \<le> x" and "x < 2 powi (e + 1)" and "- 1022 \<le> e"
  shows "fl x = of_int (round_half_even (x / 2 powi (e - 52))) * 2 powi (e - 52)"
proof -
  have pos: "0 < x"
    using assms(1) by (smt (verit) zero_less_power_int)
  then have "\<lfloor>log 2 \<bar>x\<bar>\<rfloor> = e"
    using floor_log2_eq [OF assms(1,2)] by simp
  then show ?thesis
    using pos assms(3) by (simp add: fl_def Let_def max_def)
qed

lemma fl_0: "fl 0 = 0"
  by (simp add: fl_def)

lemma fl_1: "fl 1 = 1"
  by (subst fl_eq [where e = 0]) (simp_all add: round_half_even_def power_int_minus)

lemma fl_100: "fl 100 = 100"
  by (subst fl_eq [where e = 6]) (simp_all add: round_half_even_def power_int_minus)

lemma fl_3333: "fl (3333 / 100) = 2345390243441541 / 70368744177664"
  by (subst fl_eq [where e = 5]) (simp_all add: round_half_even_def power_int_minus)

lemma fl_1437: "fl (1437 / 100) = 8089590830664253 / 562949953421312"
  by (subst fl_eq [where e = 3]) (simp_all add: round_half_even_def power_int_minus)

text \<open>A tie goes to the even mantissa, and in \<open>round\<close> to the even digit.\<close>

lemma fl_tie_even: "fl (1 + 1 / 2 ^ 53) = 1 \<and> fl (1 + 3 / 2 ^ 53) = 1 + 1 / 2 ^ 51"
proof
  show "fl (1 + 1 / 2 ^ 53) = 1"
    by (subst fl_eq [where e = 0]) (simp_all add: round_half_even_def power_int_minus)
  show "fl (1 + 3 / 2 ^ 53) = 1 + 1 / 2 ^ 51"
    by (subst fl_eq [where e = 0]) (simp_all add: round_half_even_def power_int_minus)
qed

lemma py_round_tie_even: "py_round (1 / 8) 2 = fl (12 / 100) \<and> py_round (3 / 8) 2 = fl (38 / 100)"
  by (simp add: py_round_def round_half_even_def)

text \<open>One unmapped row and three mapped rows: 33.33.\<close>

lemma share_1_3: "py_round (fl (fl (1 / 3) * 100)) 2 = fl (3333 / 100)"
proof -
  have "fl (1 / 3) = 6004799503160661 / 18014398509481984"
    by (subst fl_eq [where e = "- 2"]) (simp_all add: round_half_even_def power_int_minus)
  moreover have "fl (6004799503160661 / 18014398509481984 * 100) = 2345624805922133 / 70368744177664"
    by (subst fl_eq [where e = 5]) (simp_all add: round_half_even_def power_int_minus)
  moreover have "round_half_even (2345624805922133 / 70368744177664 * 10 ^ 2) = 3333"
    by (simp add: round_half_even_def)
  ultimately show ?thesis
    by (simp only: py_round_def) simp
qed

text \<open>
  23 unmapped rows and 160 mapped rows: the quotient is 0.14375, the doubles give
  14.374999999999998 and the share is 14.37, where rounding 14.375 would give 14.38.
\<close>

lemma share_23_160: "py_round (fl (fl (23 / 160) * 100)) 2 = fl (1437 / 100)"
proof -
  have "fl (23 / 160) = 2589569785738035 / 18014398509481984"
    by (subst fl_eq [where e = "- 3"]) (simp_all add: round_half_even_def power_int_minus)
  moreover have "fl (2589569785738035 / 18014398509481984 * 100) = 8092405580431359 / 562949953421312"
    by (subst fl_eq [where e = 3]) (simp_all add: round_half_even_def power_int_minus)
  moreover have "round_half_even (8092405580431359 / 562949953421312 * 10 ^ 2) = 1437"
    by (simp add: round_half_even_def)
  ultimately show ?thesis
    by (simp only: py_round_def) simp
qed

lemma share_0: "py_round (fl (fl 0 * 100)) 2 = 0"
  by (simp add: py_round_def fl_0 round_half_even_def)

lemma share_1_1: "py_round (fl (fl 1 * 100)) 2 = 100"
  by (simp add: py_round_def fl_1 fl_100 round_half_even_def)

lemma percent_eq:
  "percent df =
     (if filter (\<lambda>r. truthy (ancs r)) df = [] then Inl ZeroDivisionError
      else Inr (py_round (fl (fl (real (length (filter (\<lambda>r. \<not> truthy (ancs r)) df)) /
                                  real (length (filter (\<lambda>r. truthy (ancs r)) df))) * 100)) 2))"
  by (simp add: percent_def truediv_def)

lemma percent_23_160:
  "percent (replicate 23 \<lparr>ID = ''x'', HPO = ''X'', ancs = []\<rparr> @
            replicate 160 \<lparr>ID = ''x'', HPO = ''C'', ancs = [''A'', ''R'']\<rparr>) =
     Inr (fl (1437 / 100))"
proof -
  let ?df = "replicate 23 \<lparr>ID = ''x'', HPO = ''X'', ancs = []\<rparr> @
             replicate 160 \<lparr>ID = ''x'', HPO = ''C'', ancs = [''A'', ''R'']\<rparr>"
  have u: "length (filter (\<lambda>r. \<not> truthy (ancs r)) ?df) = 23"
    and m: "length (filter (\<lambda>r. truthy (ancs r)) ?df) = 160"
    by (simp_all add: truthy_def)
  from m have "filter (\<lambda>r. truthy (ancs r)) ?df \<noteq> []"
    by (metis list.size(3) zero_neq_numeral)
  then have "percent ?df = Inr (py_round (fl (fl (23 / 160) * 100)) 2)"
    unfolding percent_eq u m by simp
  then show ?thesis
    by (simp only: share_23_160)
qed

subsection \<open>The example, evaluated\<close>

lemmas eval_defs =
  load_def object_column_def dropna_input_def explode_def map_ancs_def hpo_ex_def
  aggregate_def flatten_def drop_unmapped_def truthy_def groupby_ID_def np_unique_def
  all_ancs_def information_content_def value_counts_def all_pairs_def resnik_def
  resnik_matrix_def mica_def common_ancs_def getitem_def simmax_def DataFrame_def ncols_def
  max_axis0_def max_axis1_def nanmax_def nansum_def zero_diagonal_def loc_set_def dropna_def
  set_index_def to_csv_def field_of_def obsolete_terms_def

lemma load_ex: "load hpo_ex input_ex = Inr df_ex"
  by (simp add: input_ex_def df_ex_def eval_defs)

lemma aggregate_ex:
  "aggregate df_ex =
     [\<lparr>ID = ''x'', HPO = [''C''], ancs = [''A'', ''C'', ''R'']\<rparr>,
      \<lparr>ID = ''y'', HPO = [''B'', ''C''], ancs = [''A'', ''B'', ''C'', ''R'']\<rparr>]"
  by (simp add: df_ex_def eval_defs)

lemma percent_ex: "percent df_ex = Inr (fl (3333 / 100))"
  by (simp add: percent_eq df_ex_def truthy_def share_1_3)

lemma main_ex: "main hpo_ex input_ex = Inr run_ex"
  by (simp add: main_def load_ex percent_ex fl_3333)
    (simp add: df_ex_def run_ex_def cells_ex_def written_ex_def fl_3333 eval_defs)

lemma main_renamed:
  "main hpo_ex input_renamed =
     Inr (run_ex\<lparr> distance := (distance run_ex)\<lparr> index := [''p'', ''q''] \<rparr> \<rparr>)"
proof -
  have "load hpo_ex input_renamed = Inr (map (\<lambda>r. r\<lparr> ID := (if ID r = ''x'' then ''p'' else ''q'') \<rparr>) df_ex)"
    by (simp add: input_renamed_def df_ex_def eval_defs)
  moreover have "percent (map (\<lambda>r. r\<lparr> ID := (if ID r = ''x'' then ''p'' else ''q'') \<rparr>) df_ex) =
      Inr (fl (3333 / 100))"
    by (simp add: percent_eq df_ex_def truthy_def share_1_3)
  ultimately show ?thesis
    by (simp add: main_def fl_3333)
      (simp add: df_ex_def run_ex_def cells_ex_def written_ex_def fl_3333 eval_defs)
qed

lemma main_disjoint: "main hpo_ex input_disjoint = Inl ValueError"
proof -
  have "load hpo_ex input_disjoint =
      Inr [\<lparr>ID = ''x'', HPO = ''C'', ancs = [''A'', ''R'']\<rparr>, \<lparr>ID = ''y'', HPO = ''D'', ancs = [''Q'']\<rparr>]"
    by (simp add: input_disjoint_def eval_defs)
  moreover have "percent [\<lparr>ID = ''x'', HPO = ''C'', ancs = [''A'', ''R'']\<rparr>,
                          \<lparr>ID = ''y'', HPO = ''D'', ancs = [''Q'']\<rparr>] = Inr 0"
    by (simp add: percent_eq truthy_def share_0)
  ultimately show ?thesis
    by (simp add: main_def) (simp add: eval_defs)
qed

lemma main_unmapped: "main hpo_ex input_unmapped = Inl ZeroDivisionError"
  by (simp add: main_def input_unmapped_def percent_eq eval_defs)

lemma main_unknown: "main hpo_ex input_unknown = Inl ZeroDivisionError"
  by (simp add: main_def input_unknown_def percent_eq eval_defs)

lemma main_missing: "main hpo_ex input_missing = Inl AttributeError"
  by (simp add: main_def input_missing_def eval_defs)

lemma main_obsolete:
  "main hpo_ex input_obsolete =
     Inr \<lparr> percent_warning = Some 100, obsolete_warning = False,
           distance = \<lparr> index = [''x''], columns = [0], cells = [[Some 0]] \<rparr>,
           written = [[Label 0], [Number 0]] \<rparr>"
proof -
  have "load hpo_ex input_obsolete =
      Inr [\<lparr>ID = ''w'', HPO = ''X'', ancs = []\<rparr>, \<lparr>ID = ''x'', HPO = ''C'', ancs = [''A'', ''R'']\<rparr>]"
    by (simp add: input_obsolete_def eval_defs)
  moreover have "percent [\<lparr>ID = ''w'', HPO = ''X'', ancs = []\<rparr>,
                          \<lparr>ID = ''x'', HPO = ''C'', ancs = [''A'', ''R'']\<rparr>] = Inr 100"
    by (simp add: percent_eq truthy_def share_1_1)
  ultimately show ?thesis
    by (simp add: main_def) (simp add: eval_defs)
qed

lemma main_empty: "main hpo [] = Inl ZeroDivisionError"
  by (simp add: main_def load_def object_column_def dropna_input_def explode_def percent_eq)

text \<open>Identifiers that are numbers are grouped in the order of numbers, strings as strings.\<close>

lemma groupby_order:
  "map ID (aggregate [\<lparr>ID = 10 :: int, HPO = ''C'', ancs = [''A'', ''R'']\<rparr>,
                       \<lparr>ID = 9, HPO = ''B'', ancs = [''R'']\<rparr>]) = [9, 10] \<and>
   map ID (aggregate [\<lparr>ID = ''10'', HPO = ''C'', ancs = [''A'', ''R'']\<rparr>,
                       \<lparr>ID = ''9'', HPO = ''B'', ancs = [''R'']\<rparr>]) = [''10'', ''9'']"
  by (simp add: eval_defs)

text \<open>The operations on frames and strings, on small arguments.\<close>

lemma str_split_ex: "str_split CHR '','' ''A,,B,'' = [''A'', [], ''B'', []]"
  by simp

lemma DataFrame_ragged:
  "DataFrame [[1], [2, 3]] =
     \<lparr>index = [0, 1], columns = [0, 1], cells = [[Some 1, None], [Some 2, Some 3]]\<rparr>"
  by (simp add: DataFrame_def ncols_def)

lemma loc_set_enlarges:
  "loc_set \<lparr>index = [0], columns = [0, 1], cells = [[Some 1, Some 2]]\<rparr> 1 1 0 =
     \<lparr>index = [0, 1], columns = [0, 1], cells = [[Some 1, Some 2], [None, Some 0]]\<rparr>"
  by (simp add: loc_set_def)

lemma dropna_drops:
  "dropna \<lparr>index = [''a'', ''b''], columns = [0, 1], cells = [[Some 1, None], [Some 2, Some 3]]\<rparr> =
     \<lparr>index = [''b''], columns = [0, 1], cells = [[Some 2, Some 3]]\<rparr>"
  by (simp add: dropna_def)

lemma set_index_length:
  "set_index [''a''] (DataFrame [[1], [2]]) = Inl ValueError \<and>
   set_index [''a'', ''b''] (DataFrame [[1], [2]]) =
     Inr \<lparr>index = [''a'', ''b''], columns = [0], cells = [[Some 1], [Some 2]]\<rparr>"
  by (simp add: set_index_def DataFrame_def ncols_def)

lemma to_csv_with_index:
  "to_csv True \<lparr>index = [''a''], columns = [0, 1], cells = [[Some 1, None]]\<rparr> =
     [[Empty, Label 0, Label 1], [Name ''a'', Number 1, Empty]] \<and>
   to_csv False \<lparr>index = [''a''], columns = [0, 1], cells = [[Some 1, None]]\<rparr> =
     [[Label 0, Label 1], [Number 1, Empty]]"
  by (simp add: to_csv_def field_of_def)

subsection \<open>One row for each case\<close>

lemma set_np_unique: "set (np_unique xs) = set xs"
  by (simp add: np_unique_def)

lemma distinct_np_unique: "distinct (np_unique xs)"
  by (simp add: np_unique_def)

lemma aggregate_eq:
  "aggregate df =
     map (\<lambda>(k, g). \<lparr> ID = k, HPO = np_unique (map HPO g),
                    ancs = np_unique (map HPO g @ concat (map ancs g)) \<rparr>)
       (groupby_ID (drop_unmapped df))"
  by (simp add: aggregate_def flatten_def comp_def case_prod_beta)

lemma in_aggregateE:
  assumes "c \<in> set (aggregate df)"
  obtains g where "g = filter (\<lambda>r. ID r = ID c) (drop_unmapped df)"
    and "ID c \<in> ID ` set (drop_unmapped df)"
    and "HPO c = np_unique (map HPO g)"
    and "ancs c = np_unique (map HPO g @ concat (map ancs g))"
  using assms unfolding aggregate_eq groupby_ID_def by auto

lemma in_aggregateI:
  assumes "r \<in> set (drop_unmapped df)"
  shows "\<exists>c\<in>set (aggregate df). ID c = ID r \<and>
           HPO c = np_unique (map HPO (filter (\<lambda>x. ID x = ID r) (drop_unmapped df))) \<and>
           ancs c = np_unique (map HPO (filter (\<lambda>x. ID x = ID r) (drop_unmapped df)) @
                      concat (map ancs (filter (\<lambda>x. ID x = ID r) (drop_unmapped df))))"
proof -
  let ?g = "filter (\<lambda>x. ID x = ID r) (drop_unmapped df)"
  let ?c = "\<lparr> ID = ID r, HPO = np_unique (map HPO ?g),
              ancs = np_unique (map HPO ?g @ concat (map ancs ?g)) \<rparr>"
  have "ID r \<in> set (sort (remdups (map ID (drop_unmapped df))))"
    using assms by simp
  then have "?c \<in> set (aggregate df)"
    unfolding aggregate_eq groupby_ID_def by (force simp: image_iff)
  then show ?thesis
    by (rule bexI [rotated]) simp
qed

lemma load_ancs: "load hpo input = Inr df \<Longrightarrow> r \<in> set df \<Longrightarrow> ancs r = map_ancs hpo (HPO r)"
  by (auto simp: load_def split: if_splits)

lemma load_drop_unmapped:
  assumes "load hpo input = Inr df"
  shows "drop_unmapped df = filter (\<lambda>r. map_ancs hpo (HPO r) \<noteq> []) df"
  unfolding drop_unmapped_def truthy_def
  by (rule filter_cong [OF refl]) (simp add: load_ancs [OF assms])

lemma aggregate_IDs: "map ID (aggregate df) = sort (remdups (map ID (drop_unmapped df)))"
  by (simp add: aggregate_eq groupby_ID_def comp_def)

lemma map_ancs_unknown: "hpo t = None \<Longrightarrow> map_ancs hpo t = []"
  by (simp add: map_ancs_def)

lemma aggregate_HPO_mapped:
  assumes "load hpo input = Inr df" and "c \<in> set (aggregate df)" and "t \<in> set (HPO c)"
  shows "map_ancs hpo t \<noteq> []"
proof -
  from assms(2) obtain g where g: "g = filter (\<lambda>r. ID r = ID c) (drop_unmapped df)"
    and h: "HPO c = np_unique (map HPO g)"
    by (rule in_aggregateE)
  from assms(3) h obtain r where "r \<in> set g" and "HPO r = t"
    by (auto simp: set_np_unique)
  then have "r \<in> set df" and "ancs r \<noteq> []"
    using g by (auto simp: drop_unmapped_def truthy_def)
  then show ?thesis
    using load_ancs [OF assms(1)] \<open>HPO r = t\<close> by metis
qed

lemma unknown_concept_dropped:
  assumes "load hpo input = Inr df" and "hpo t = None"
  shows "map_ancs hpo t = [] \<and> (\<forall>c\<in>set (aggregate df). t \<notin> set (HPO c))"
  using assms aggregate_HPO_mapped map_ancs_unknown by blast

text \<open>
  Claim C5. In every row that the aggregation produces, each concept of the \<open>HPO\<close> list
  is a member of the \<open>ancs\<close> list: line 97 puts the concepts in front of the collected
  ancestors before both lists are de-duplicated.
\<close>

theorem concepts_subset_ancs:
  assumes "c \<in> set (aggregate df)"
  shows "set (HPO c) \<subseteq> set (ancs c)"
  using assms
proof (rule in_aggregateE)
  fix g
  assume "HPO c = np_unique (map HPO g)"
    and "ancs c = np_unique (map HPO g @ concat (map ancs g))"
  then show ?thesis
    by (simp add: set_np_unique)
qed

theorem concepts_subset_ancs_witness:
  "load hpo_ex input_ex = Inr df_ex \<and>
   \<lparr>ID = ''y'', HPO = [''B'', ''C''], ancs = [''A'', ''B'', ''C'', ''R'']\<rparr>
     \<in> set (aggregate df_ex) \<and>
   set [''B'', ''C''] \<subseteq> set [''A'', ''B'', ''C'', ''R'']"
proof -
  have h: "\<lparr>ID = ''y'', HPO = [''B'', ''C''], ancs = [''A'', ''B'', ''C'', ''R'']\<rparr>
             \<in> set (aggregate df_ex)"
    by (simp add: aggregate_ex)
  show ?thesis
    using h concepts_subset_ancs [OF h] load_ex by simp
qed

text \<open>
  Claim C4, amended. The lookup itself returns the recursive parents as the ontology
  gives them and does not add the concept. The concept enters the ancestors when the
  rows are grouped: for every input concept with a non-empty lookup, the row of its
  case has the concept itself and every identifier of the lookup in \<open>ancs\<close>.
\<close>

theorem concept_in_case_ancs:
  assumes "load hpo input = Inr df" and "r \<in> set df" and "map_ancs hpo (HPO r) \<noteq> []"
  shows "\<exists>c\<in>set (aggregate df).
           ID c = ID r \<and> HPO r \<in> set (HPO c) \<and> HPO r \<in> set (ancs c) \<and>
           set (map_ancs hpo (HPO r)) \<subseteq> set (ancs c)"
proof -
  have r: "r \<in> set (drop_unmapped df)"
    using assms load_ancs [OF assms(1,2)] by (simp add: drop_unmapped_def truthy_def)
  let ?g = "filter (\<lambda>x. ID x = ID r) (drop_unmapped df)"
  from in_aggregateI [OF r] obtain c where c: "c \<in> set (aggregate df)"
    and id: "ID c = ID r" and h: "HPO c = np_unique (map HPO ?g)"
    and a: "ancs c = np_unique (map HPO ?g @ concat (map ancs ?g))"
    by blast
  have rg: "r \<in> set ?g" using r by simp
  then have "HPO r \<in> set (HPO c)" "HPO r \<in> set (ancs c)"
    by (auto simp: h a set_np_unique)
  moreover have "set (ancs r) \<subseteq> set (ancs c)"
    using rg by (auto simp: a set_np_unique)
  ultimately show ?thesis
    using c id load_ancs [OF assms(1,2)] by auto
qed

theorem concept_in_case_ancs_witness:
  "load hpo_ex input_ex = Inr df_ex \<and>
   \<lparr>ID = ''y'', HPO = ''C'', ancs = [''A'', ''R'']\<rparr> \<in> set df_ex \<and>
   map_ancs hpo_ex ''C'' \<noteq> [] \<and>
   (\<exists>c\<in>set (aggregate df_ex).
      ID c = ''y'' \<and> ''C'' \<in> set (HPO c) \<and> ''C'' \<in> set (ancs c) \<and>
      set (map_ancs hpo_ex ''C'') \<subseteq> set (ancs c))"
proof -
  have r: "\<lparr>ID = ''y'', HPO = ''C'', ancs = [''A'', ''R'']\<rparr> \<in> set df_ex"
    by (simp add: df_ex_def)
  have m: "map_ancs hpo_ex (HPO \<lparr>ID = ''y'', HPO = ''C'', ancs = [''A'', ''R'']\<rparr>) \<noteq> []"
    by (simp add: map_ancs_def hpo_ex_def)
  show ?thesis
    using r m concept_in_case_ancs [OF load_ex r m] load_ex by simp
qed

text \<open>
  Claim C4 as stated fails on the code. The lookup of a concept of the catalog need not
  contain the concept: \<open>rparents\<close> lists the parents of \<open>C\<close> and their parents, \<open>A\<close>
  and \<open>R\<close>, and \<open>map_ancs\<close> returns their identifiers unchanged.
\<close>

theorem map_ancs_not_reflexive:
  "hpo_ex ''C'' = Some [''A'', ''R''] \<and> ''C'' \<notin> set (map_ancs hpo_ex ''C'')"
  by (simp add: map_ancs_def hpo_ex_def)




subsection \<open>Information content\<close>

lemma count_list_distinct: "distinct xs \<Longrightarrow> count_list xs c = (if c \<in> set xs then 1 else 0)"
  by (induction xs) auto

lemma count_list_concat_distinct:
  "\<forall>r\<in>set rs. distinct (f r) \<Longrightarrow>
     count_list (concat (map f rs)) c = length (filter (\<lambda>r. c \<in> set (f r)) rs)"
  by (induction rs) (auto simp: count_list_distinct)

lemma aggregate_ancs_distinct: "r \<in> set (aggregate df) \<Longrightarrow> distinct (ancs r)"
  by (erule in_aggregateE) (simp add: distinct_np_unique)

lemma count_all_ancs:
  "count_list (all_ancs (aggregate df)) c = length (filter (\<lambda>r. c \<in> set (ancs r)) (aggregate df))"
  unfolding all_ancs_def
  by (rule count_list_concat_distinct) (simp add: aggregate_ancs_distinct)

lemma information_content_Some:
  "information_content xs c = Some v \<longleftrightarrow>
     c \<in> set xs \<and> v = - log 2 (real (count_list xs c) / real (length xs))"
  by (auto simp: information_content_def value_counts_def)

text \<open>
  Claim C6. The information content of a concept of the corpus is
  \<open>- log 2 (n / total)\<close>, where \<open>n\<close> is the number of cases whose ancestors contain the
  concept and \<open>total\<close> the length of the flattened list of all ancestors; a concept in
  at least as many cases as another has at most the information content of the other.
\<close>

theorem IC_antitone:
  assumes "information_content (all_ancs (aggregate df)) c1 = Some v1"
    and "information_content (all_ancs (aggregate df)) c2 = Some v2"
    and "length (filter (\<lambda>r. c2 \<in> set (ancs r)) (aggregate df)) \<le>
         length (filter (\<lambda>r. c1 \<in> set (ancs r)) (aggregate df))"
  shows "v1 = - log 2 (real (length (filter (\<lambda>r. c1 \<in> set (ancs r)) (aggregate df))) /
                       real (length (all_ancs (aggregate df)))) \<and>
         v2 = - log 2 (real (length (filter (\<lambda>r. c2 \<in> set (ancs r)) (aggregate df))) /
                       real (length (all_ancs (aggregate df)))) \<and>
         v1 \<le> v2"
proof -
  let ?xs = "all_ancs (aggregate df)"
  let ?n1 = "length (filter (\<lambda>r. c1 \<in> set (ancs r)) (aggregate df))"
  let ?n2 = "length (filter (\<lambda>r. c2 \<in> set (ancs r)) (aggregate df))"
  from assms(1) have v1: "v1 = - log 2 (real ?n1 / real (length ?xs))"
    by (simp add: information_content_Some count_all_ancs)
  from assms(2) have c2: "c2 \<in> set ?xs" and v2: "v2 = - log 2 (real ?n2 / real (length ?xs))"
    by (simp_all add: information_content_Some count_all_ancs)
  from c2 have "0 < count_list ?xs c2"
    using count_list_0_iff [of ?xs c2] by simp
  then have n2: "0 < ?n2"
    by (simp add: count_all_ancs)
  from c2 have len: "0 < length ?xs"
    by (cases ?xs) auto
  have "real ?n2 / real (length ?xs) \<le> real ?n1 / real (length ?xs)"
    using assms(3) len by (simp add: divide_right_mono)
  moreover have "0 < real ?n2 / real (length ?xs)"
    using n2 len by simp
  ultimately have "log 2 (real ?n2 / real (length ?xs)) \<le> log 2 (real ?n1 / real (length ?xs))"
    by (subst log_le_cancel_iff) simp_all
  then show ?thesis
    using v1 v2 by simp
qed

theorem IC_antitone_witness:
  "load hpo_ex input_ex = Inr df_ex \<and>
   information_content (all_ancs (aggregate df_ex)) ''R'' = Some (- log 2 (2 / 7)) \<and>
   information_content (all_ancs (aggregate df_ex)) ''B'' = Some (- log 2 (1 / 7)) \<and>
   length (filter (\<lambda>r. ''B'' \<in> set (ancs r)) (aggregate df_ex)) = 1 \<and>
   length (filter (\<lambda>r. ''R'' \<in> set (ancs r)) (aggregate df_ex)) = 2 \<and>
   - log 2 (2 / 7) \<le> - log 2 (1 / 7 :: real)"
proof -
  have r: "information_content (all_ancs (aggregate df_ex)) ''R'' = Some (- log 2 (2 / 7))"
    by (simp add: aggregate_ex all_ancs_def information_content_def value_counts_def)
  have b: "information_content (all_ancs (aggregate df_ex)) ''B'' = Some (- log 2 (1 / 7))"
    by (simp add: aggregate_ex all_ancs_def information_content_def value_counts_def)
  have nb: "length (filter (\<lambda>r. ''B'' \<in> set (ancs r)) (aggregate df_ex)) = 1"
    and nr: "length (filter (\<lambda>r. ''R'' \<in> set (ancs r)) (aggregate df_ex)) = 2"
    by (simp_all add: aggregate_ex)
  have "length (filter (\<lambda>r. ''B'' \<in> set (ancs r)) (aggregate df_ex)) \<le>
        length (filter (\<lambda>r. ''R'' \<in> set (ancs r)) (aggregate df_ex))"
    by (simp add: nb nr)
  from IC_antitone [OF r b this] show ?thesis
    using r b nb nr load_ex by blast
qed

subsection \<open>The run\<close>

lemma traverse_Inl_D:
  "traverse f xs = Inl e \<Longrightarrow> \<exists>x\<in>set xs. f x = Inl e"
  by (induction xs) (auto split: sum.splits)

lemma traverse_total:
  "(\<And>x. x \<in> set xs \<Longrightarrow> \<exists>y. f x = Inr y) \<Longrightarrow> \<exists>ys. traverse f xs = Inr ys"
proof (induction xs)
  case Nil
  then show ?case by simp
next
  case (Cons x xs)
  then obtain y ys where "f x = Inr y" "traverse f xs = Inr ys"
    by (metis list.set_intros(1,2))
  then show ?case by simp
qed

lemma mica_error: "mica hpo IC i j = Inl e \<Longrightarrow> e = KeyError \<or> e = ValueError"
proof -
  assume a: "mica hpo IC i j = Inl e"
  show ?thesis
  proof (cases "traverse (getitem IC) (common_ancs hpo i j)")
    case (Inl e')
    then obtain x where "getitem IC x = Inl e'"
      using traverse_Inl_D by blast
    then have "e' = KeyError"
      by (auto simp: getitem_def split: option.splits)
    with a Inl show ?thesis by (simp add: mica_def)
  next
    case (Inr vs)
    with a have "py_max vs = Inl e" by (simp add: mica_def)
    then show ?thesis by (cases vs) auto
  qed
qed

lemma resnik_error: "resnik hpo IC A B = Inl e \<Longrightarrow> e = KeyError \<or> e = ValueError"
proof -
  assume "resnik hpo IC A B = Inl e"
  then have "resnik_matrix hpo IC A B = Inl e"
    by (simp add: resnik_def split: sum.splits)
  then obtain i where "traverse (\<lambda>j. mica hpo IC i j) B = Inl e"
    unfolding resnik_matrix_def using traverse_Inl_D by blast
  then obtain j where "mica hpo IC i j = Inl e"
    using traverse_Inl_D by blast
  then show ?thesis by (rule mica_error)
qed

lemma all_pairs_error: "all_pairs hpo IC hs = Inl e \<Longrightarrow> e = KeyError \<or> e = ValueError"
proof -
  assume "all_pairs hpo IC hs = Inl e"
  then obtain j where "traverse (\<lambda>i. resnik hpo IC j i) hs = Inl e"
    unfolding all_pairs_def using traverse_Inl_D by blast
  then obtain i where "resnik hpo IC j i = Inl e"
    using traverse_Inl_D by blast
  then show ?thesis by (rule resnik_error)
qed

lemma all_pairs_square:
  assumes "all_pairs hpo IC hs = Inr m"
  shows "length m = length hs" and "\<forall>r\<in>set m. length r = length hs"
proof -
  from assms have *: "list_all2 (\<lambda>j r. list_all2 (\<lambda>i v. resnik hpo IC j i = Inr v) hs r) hs m"
    by (simp add: all_pairs_def traverse_Inr_iff)
  then show "length m = length hs"
    by (simp add: list_all2_lengthD)
  from * show "\<forall>r\<in>set m. length r = length hs"
    by (auto simp: list_all2_conv_all_nth in_set_conv_nth)
qed

lemma loc_set_range:
  assumes "index f = [0..<n]" and "length (cells f) = n" and "r < n"
  shows "loc_set f r c v = f\<lparr> cells := (cells f)[r := (cells f ! r)[c := Some v]] \<rparr>"
proof -
  have "map (\<lambda>(l, cs). if l = r then cs[c := Some v] else cs) (zip [0..<n] (cells f)) =
        (cells f)[r := (cells f ! r)[c := Some v]]"
    using assms(2,3) by (auto intro!: nth_equalityI simp: nth_list_update)
  then show ?thesis
    using assms by (simp add: loc_set_def)
qed

lemma fold_loc_set_prefix:
  assumes "index f = [0..<n]" and "length (cells f) = n" and "k \<le> n"
  shows "fold (\<lambda>i d. loc_set d i i 0) [0..<k] f =
         f\<lparr> cells := map (\<lambda>i. if i < k then (cells f ! i)[i := Some 0] else cells f ! i) [0..<n] \<rparr>"
  using assms(3)
proof (induction k)
  case 0
  have "map (\<lambda>i. cells f ! i) [0..<n] = cells f"
    using assms(2) map_nth [of "cells f"] by simp
  then show ?case by simp
next
  case (Suc k)
  let ?g = "f\<lparr> cells := map (\<lambda>i. if i < k then (cells f ! i)[i := Some 0] else cells f ! i) [0..<n] \<rparr>"
  have k: "k < n" using Suc.prems by simp
  have "fold (\<lambda>i d. loc_set d i i 0) [0..<Suc k] f = loc_set ?g k k 0"
    using Suc.IH k by simp
  also have "\<dots> = ?g\<lparr> cells := (cells ?g)[k := (cells ?g ! k)[k := Some 0]] \<rparr>"
    by (rule loc_set_range [where n = n]) (use assms k in simp_all)
  also have "\<dots> = f\<lparr> cells := map (\<lambda>i. if i < Suc k then (cells f ! i)[i := Some 0] else cells f ! i) [0..<n] \<rparr>"
  proof -
    have "(map (\<lambda>i. if i < k then (cells f ! i)[i := Some 0] else cells f ! i) [0..<n])
            [k := (cells f ! k)[k := Some 0]] =
          map (\<lambda>i. if i < Suc k then (cells f ! i)[i := Some 0] else cells f ! i) [0..<n]"
      using k by (auto intro!: nth_equalityI simp: nth_list_update less_Suc_eq)
    then show ?thesis using k by simp
  qed
  finally show ?case .
qed

lemma zero_diagonal_square:
  assumes "length m = n" and "\<forall>r\<in>set m. length r = n"
  shows "zero_diagonal (DataFrame m) =
         \<lparr> index = [0..<n], columns = [0..<n],
           cells = map (\<lambda>i. (map Some (m ! i))[i := Some 0]) [0..<n] \<rparr>"
proof -
  have c: "cells (DataFrame m) = map (map Some) m"
    and col: "columns (DataFrame m) = [0..<n]"
    and ind: "index (DataFrame m) = [0..<n]"
    using DataFrame_rect [OF assms(2)] assms(1) by auto
  have "zero_diagonal (DataFrame m) =
      (DataFrame m)\<lparr> cells := map (\<lambda>i. if i < n then (cells (DataFrame m) ! i)[i := Some 0]
                                          else cells (DataFrame m) ! i) [0..<n] \<rparr>"
    unfolding zero_diagonal_def col
    by (rule fold_loc_set_prefix) (use ind c assms(1) in simp_all)
  also have "\<dots> = \<lparr> index = [0..<n], columns = [0..<n],
           cells = map (\<lambda>i. (map Some (m ! i))[i := Some 0]) [0..<n] \<rparr>"
    using c col ind assms(1) by (cases "DataFrame m") auto
  finally show ?thesis .
qed

lemma dropna_all_numbers:
  assumes "length (index f) = length (cells f)" and "\<forall>cs\<in>set (cells f). None \<notin> set cs"
  shows "dropna f = f"
proof -
  have "filter (\<lambda>(l, cs). list_all (\<lambda>c. c \<noteq> None) cs) (zip (index f) (cells f)) = zip (index f) (cells f)"
  proof -
    have "\<And>l cs. (l, cs) \<in> set (zip (index f) (cells f)) \<Longrightarrow> list_all (\<lambda>c. c \<noteq> None) cs"
    proof -
      fix l cs assume "(l, cs) \<in> set (zip (index f) (cells f))"
      then have "cs \<in> set (cells f)" by (rule set_zip_rightD)
      with assms(2) have "None \<notin> set cs" by blast
      then show "list_all (\<lambda>c. c \<noteq> None) cs"
        unfolding list_all_iff by metis
    qed
    then show ?thesis
      by (auto simp: filter_id_conv)
  qed
  then show ?thesis
    using assms(1) by (simp add: dropna_def)
qed

lemma zeroed_cells_numbers:
  "\<forall>cs\<in>set (map (\<lambda>i. (map Some (m ! i))[i := Some (0::real)]) [0..<n]). None \<notin> set cs"
  by (auto dest!: set_update_subset_insert [THEN subsetD])

lemma finish_square:
  assumes "all_pairs hpo IC hs = Inr m" and "length ids = length hs"
  shows "set_index ids (dropna (zero_diagonal (DataFrame m))) =
         Inr \<lparr> index = ids, columns = [0..<length hs],
               cells = map (\<lambda>i. (map Some (m ! i))[i := Some 0]) [0..<length hs] \<rparr>"
proof -
  let ?z = "\<lparr> index = [0..<length hs], columns = [0..<length hs],
             cells = map (\<lambda>i. (map Some (m ! i))[i := Some 0]) [0..<length hs] \<rparr>"
  have "zero_diagonal (DataFrame m) = ?z"
    using all_pairs_square [OF assms(1)] by (rule zero_diagonal_square)
  moreover have "dropna ?z = ?z"
    by (rule dropna_all_numbers) (use zeroed_cells_numbers in simp_all)
  ultimately show ?thesis
    using assms(2) by (simp add: set_index_def)
qed

lemma main_eq:
  "main hpo input =
     (case load hpo input of
        Inl e \<Rightarrow> Inl e
      | Inr df \<Rightarrow>
          (case percent df of
             Inl e \<Rightarrow> Inl e
           | Inr p \<Rightarrow>
               (case all_pairs hpo (information_content (all_ancs (aggregate df)))
                       (map HPO (aggregate df)) of
                  Inl e \<Rightarrow> Inl e
                | Inr m \<Rightarrow>
                    Inr \<lparr> percent_warning = (if 0 < p then Some p else None),
                          obsolete_warning = list_ex (obsolete_terms hpo) (map HPO (aggregate df)),
                          distance = \<lparr> index = map ID (aggregate df),
                                       columns = [0..<length (aggregate df)],
                                       cells = map (\<lambda>i. (map Some (m ! i))[i := Some 0])
                                                 [0..<length (aggregate df)] \<rparr>,
                          written = to_csv False
                                      \<lparr> index = map ID (aggregate df),
                                        columns = [0..<length (aggregate df)],
                                        cells = map (\<lambda>i. (map Some (m ! i))[i := Some 0])
                                                  [0..<length (aggregate df)] \<rparr> \<rparr>)))"
proof (cases "load hpo input")
  case (Inl e)
  then show ?thesis by (simp add: main_def)
next
  case df: (Inr df)
  show ?thesis
  proof (cases "percent df")
    case (Inl e)
    with df show ?thesis by (simp add: main_def)
  next
    case p: (Inr p)
    show ?thesis
    proof (cases "all_pairs hpo (information_content (all_ancs (aggregate df)))
                    (map HPO (aggregate df))")
      case (Inl e)
      with df p show ?thesis by (simp add: main_def)
    next
      case (Inr m)
      have "set_index (map ID (aggregate df)) (dropna (zero_diagonal (DataFrame m))) =
            Inr \<lparr> index = map ID (aggregate df),
                  columns = [0..<length (map HPO (aggregate df))],
                  cells = map (\<lambda>i. (map Some (m ! i))[i := Some 0])
                            [0..<length (map HPO (aggregate df))] \<rparr>"
        by (rule finish_square [OF Inr]) simp
      with df p Inr show ?thesis by (simp add: main_def Let_def)
    qed
  qed
qed

lemma percent_Inl_iff:
  "percent df = Inl e \<longleftrightarrow> filter (\<lambda>r. truthy (ancs r)) df = [] \<and> e = ZeroDivisionError"
  by (auto simp: percent_eq)

lemma load_Inl_iff:
  "load hpo input = Inl e \<longleftrightarrow> \<not> object_column (map snd input) \<and> e = AttributeError"
  by (auto simp: load_def)

lemma no_mapped_row_iff:
  assumes "load hpo input = Inr df"
  shows "filter (\<lambda>r. truthy (ancs r)) df = [] \<longleftrightarrow> (\<forall>r\<in>set df. map_ancs hpo (HPO r) = [])"
proof -
  have "filter (\<lambda>r. truthy (ancs r)) df = [] \<longleftrightarrow> (\<forall>r\<in>set df. ancs r = [])"
    by (auto simp: truthy_def filter_empty_conv)
  then show ?thesis
    using load_ancs [OF assms] by metis
qed

lemma main_InrE:
  assumes "main hpo input = Inr out"
  obtains df m where "load hpo input = Inr df"
    and "all_pairs hpo (information_content (all_ancs (aggregate df)))
           (map HPO (aggregate df)) = Inr m"
    and "distance out = \<lparr> index = map ID (aggregate df),
                            columns = [0..<length (aggregate df)],
                            cells = map (\<lambda>i. (map Some (m ! i))[i := Some 0])
                                      [0..<length (aggregate df)] \<rparr>"
    and "written out = to_csv False (distance out)"
  using assms by (auto simp: main_eq split: sum.splits)

text \<open>
  Claim C10. The share of unmapped concepts is the number of rows with an empty lookup
  divided by the number of rows with a non-empty lookup, times 100, in double
  arithmetic and rounded to two places. When at least one row has a non-empty lookup
  the share is that number; the script ends with \<open>ZeroDivisionError\<close> exactly when the
  table is loaded and no row has a non-empty lookup, and then there is no matrix. (A
  table that is not loaded ends with the \<open>AttributeError\<close> of line 81.)
\<close>

theorem percent_zero_division:
  "(main hpo input = Inl ZeroDivisionError \<longleftrightarrow>
      (\<exists>df. load hpo input = Inr df \<and> (\<forall>r\<in>set df. map_ancs hpo (HPO r) = []))) \<and>
   (load hpo input = Inr df \<and> (\<exists>r\<in>set df. map_ancs hpo (HPO r) \<noteq> []) \<longrightarrow>
      percent df =
        Inr (py_round
               (fl (fl (real (length (filter (\<lambda>r. map_ancs hpo (HPO r) = []) df)) /
                        real (length (filter (\<lambda>r. map_ancs hpo (HPO r) \<noteq> []) df))) * 100)) 2)) \<and>
   (main hpo input = Inl AttributeError \<longleftrightarrow> \<not> object_column (map snd input))"
proof -
  have zde: "main hpo input = Inl ZeroDivisionError \<longleftrightarrow>
      (\<exists>df. load hpo input = Inr df \<and> (\<forall>r\<in>set df. map_ancs hpo (HPO r) = []))"
  proof (cases "load hpo input")
    case (Inl e)
    then have e: "e = AttributeError" and obj: "\<not> object_column (map snd input)"
      by (simp_all add: load_Inl_iff)
    have "main hpo input = Inl AttributeError"
      unfolding main_eq Inl e by simp
    with Inl obj show ?thesis
      by simp
  next
    case df: (Inr d)
    have "main hpo input = Inl ZeroDivisionError \<longleftrightarrow> filter (\<lambda>r. truthy (ancs r)) d = []"
    proof
      assume a: "main hpo input = Inl ZeroDivisionError"
      show "filter (\<lambda>r. truthy (ancs r)) d = []"
      proof (cases "percent d")
        case (Inl e)
        then show ?thesis by (simp add: percent_Inl_iff)
      next
        case (Inr p)
        with a df obtain e where
          "all_pairs hpo (information_content (all_ancs (aggregate d))) (map HPO (aggregate d)) = Inl e"
          and "e = ZeroDivisionError"
          by (auto simp: main_eq split: sum.splits)
        then show ?thesis
          using all_pairs_error by blast
      qed
    next
      assume "filter (\<lambda>r. truthy (ancs r)) d = []"
      then show "main hpo input = Inl ZeroDivisionError"
        by (simp add: main_eq df percent_eq)
    qed
    then show ?thesis
      using df no_mapped_row_iff [OF df] by simp
  qed
  have share: "percent df =
        Inr (py_round
               (fl (fl (real (length (filter (\<lambda>r. map_ancs hpo (HPO r) = []) df)) /
                        real (length (filter (\<lambda>r. map_ancs hpo (HPO r) \<noteq> []) df))) * 100)) 2)"
    if l: "load hpo input = Inr df" and m: "\<exists>r\<in>set df. map_ancs hpo (HPO r) \<noteq> []"
  proof -
    have u: "filter (\<lambda>r. \<not> truthy (ancs r)) df = filter (\<lambda>r. map_ancs hpo (HPO r) = []) df"
      by (rule filter_cong [OF refl]) (simp add: truthy_def load_ancs [OF l])
    have t: "filter (\<lambda>r. truthy (ancs r)) df = filter (\<lambda>r. map_ancs hpo (HPO r) \<noteq> []) df"
      by (rule filter_cong [OF refl]) (simp add: truthy_def load_ancs [OF l])
    have "filter (\<lambda>r. truthy (ancs r)) df \<noteq> []"
      using m no_mapped_row_iff [OF l] by blast
    then show ?thesis
      by (simp add: percent_eq u t)
  qed
  have attr: "main hpo input = Inl AttributeError \<longleftrightarrow> \<not> object_column (map snd input)"
  proof (cases "load hpo input")
    case (Inl e)
    then have e: "e = AttributeError" and obj: "\<not> object_column (map snd input)"
      by (simp_all add: load_Inl_iff)
    have "main hpo input = Inl AttributeError"
      unfolding main_eq Inl e by simp
    with Inl obj show ?thesis
      by simp
  next
    case df: (Inr d)
    then have obj: "object_column (map snd input)"
      by (auto simp: load_def split: if_splits)
    have "main hpo input \<noteq> Inl AttributeError"
    proof
      assume a: "main hpo input = Inl AttributeError"
      show False
      proof (cases "percent d")
        case (Inl e)
        with a df show False by (simp add: main_eq percent_Inl_iff)
      next
        case (Inr p)
        with a df obtain e where
          "all_pairs hpo (information_content (all_ancs (aggregate d))) (map HPO (aggregate d)) = Inl e"
          and "e = AttributeError"
          by (auto simp: main_eq split: sum.splits)
        then show False
          using all_pairs_error by blast
      qed
    qed
    with obj show ?thesis by simp
  qed
  from zde share attr show ?thesis by blast
qed

theorem percent_zero_division_witness:
  "main hpo_ex input_unknown = Inl ZeroDivisionError \<and>
   main hpo_ex input_missing = Inl AttributeError \<and>
   load hpo_ex input_ex = Inr df_ex \<and>
   length (filter (\<lambda>r. map_ancs hpo_ex (HPO r) = []) df_ex) = 1 \<and>
   length (filter (\<lambda>r. map_ancs hpo_ex (HPO r) \<noteq> []) df_ex) = 3 \<and>
   percent df_ex = Inr (fl (3333 / 100)) \<and>
   fl (3333 / 100) = 2345390243441541 / 70368744177664"
proof -
  have "load hpo_ex input_unknown = Inr [\<lparr>ID = ''x'', HPO = ''X'', ancs = []\<rparr>]"
    by (simp add: input_unknown_def eval_defs)
  moreover have "\<forall>r\<in>set [\<lparr>ID = ''x'', HPO = ''X'', ancs = []\<rparr>]. map_ancs hpo_ex (HPO r) = []"
    by (simp add: map_ancs_def hpo_ex_def)
  ultimately have a: "main hpo_ex input_unknown = Inl ZeroDivisionError"
    using percent_zero_division [of hpo_ex input_unknown] by blast
  have "\<not> object_column (map snd input_missing)"
    by (simp add: input_missing_def object_column_def)
  with percent_zero_division [of hpo_ex input_missing]
  have b: "main hpo_ex input_missing = Inl AttributeError"
    by blast
  have u: "length (filter (\<lambda>r. map_ancs hpo_ex (HPO r) = []) df_ex) = 1"
    and m: "length (filter (\<lambda>r. map_ancs hpo_ex (HPO r) \<noteq> []) df_ex) = 3"
    by (simp_all add: df_ex_def map_ancs_def hpo_ex_def)
  have "\<exists>r\<in>set df_ex. map_ancs hpo_ex (HPO r) \<noteq> []"
    by (simp add: df_ex_def map_ancs_def hpo_ex_def)
  with percent_zero_division [of hpo_ex input_ex df_ex] load_ex
  have "percent df_ex =
      Inr (py_round
             (fl (fl (real (length (filter (\<lambda>r. map_ancs hpo_ex (HPO r) = []) df_ex)) /
                      real (length (filter (\<lambda>r. map_ancs hpo_ex (HPO r) \<noteq> []) df_ex))) * 100)) 2)"
    by blast
  then have "percent df_ex = Inr (fl (3333 / 100))"
    unfolding u m by (simp add: share_1_3)
  with a b u m load_ex fl_3333 show ?thesis by simp
qed

lemma mica_KeyError:
  assumes "mica hpo IC i j = Inl KeyError"
  shows "\<exists>a \<in> set (map_ancs hpo i) \<inter> set (map_ancs hpo j). IC a = None"
proof (cases "traverse (getitem IC) (common_ancs hpo i j)")
  case (Inl e)
  then obtain a where "a \<in> set (common_ancs hpo i j)" and "getitem IC a = Inl e"
    using traverse_Inl_D by blast
  then show ?thesis
    by (auto simp: set_common_ancs getitem_def split: option.splits)
next
  case (Inr vs)
  with assms have "py_max vs = Inl KeyError" by (simp add: mica_def)
  then show ?thesis by (cases vs) auto
qed

lemma resnik_KeyError:
  assumes "resnik hpo IC A B = Inl KeyError"
  shows "\<exists>i\<in>set A. \<exists>j\<in>set B. \<exists>a \<in> set (map_ancs hpo i) \<inter> set (map_ancs hpo j). IC a = None"
proof -
  from assms have "resnik_matrix hpo IC A B = Inl KeyError"
    by (simp add: resnik_def split: sum.splits)
  then obtain i where i: "i \<in> set A" and "traverse (\<lambda>j. mica hpo IC i j) B = Inl KeyError"
    unfolding resnik_matrix_def using traverse_Inl_D by blast
  then obtain j where j: "j \<in> set B" and "mica hpo IC i j = Inl KeyError"
    using traverse_Inl_D by blast
  from mica_KeyError [OF this(2)] i j show ?thesis by blast
qed

lemma all_pairs_KeyError:
  assumes "all_pairs hpo IC hs = Inl KeyError"
  shows "\<exists>h\<in>set hs. \<exists>i\<in>set h. \<exists>a\<in>set (map_ancs hpo i). IC a = None"
proof -
  from assms obtain h where h: "h \<in> set hs" and "traverse (\<lambda>i. resnik hpo IC h i) hs = Inl KeyError"
    unfolding all_pairs_def using traverse_Inl_D by blast
  then obtain h' where "resnik hpo IC h h' = Inl KeyError"
    using traverse_Inl_D by blast
  from resnik_KeyError [OF this] h show ?thesis by blast
qed

lemma aggregate_ancs_closed:
  assumes "load hpo input = Inr df" and "c \<in> set (aggregate df)" and "t \<in> set (HPO c)"
  shows "set (map_ancs hpo t) \<subseteq> set (ancs c)"
proof -
  from assms(2) obtain g where g: "g = filter (\<lambda>r. ID r = ID c) (drop_unmapped df)"
    and h: "HPO c = np_unique (map HPO g)"
    and a: "ancs c = np_unique (map HPO g @ concat (map ancs g))"
    by (rule in_aggregateE)
  from assms(3) h obtain r where r: "r \<in> set g" and t: "HPO r = t"
    by (auto simp: set_np_unique)
  then have "r \<in> set df"
    using g by (simp add: drop_unmapped_def)
  then have "ancs r = map_ancs hpo t"
    using load_ancs [OF assms(1)] t by blast
  moreover have "set (ancs r) \<subseteq> set (ancs c)"
    using r by (auto simp: a set_np_unique)
  ultimately show ?thesis by simp
qed

lemma information_content_None: "information_content xs a = None \<longleftrightarrow> a \<notin> set xs"
  by (simp add: information_content_def value_counts_def)

lemma main_no_KeyError: "main hpo input \<noteq> Inl KeyError"
proof
  assume a: "main hpo input = Inl KeyError"
  then obtain df where df: "load hpo input = Inr df"
    by (cases "load hpo input") (auto simp: main_eq load_Inl_iff)
  have "percent df \<noteq> Inl KeyError"
    by (simp add: percent_Inl_iff)
  with a df have "all_pairs hpo (information_content (all_ancs (aggregate df))) (map HPO (aggregate df)) = Inl KeyError"
    by (auto simp: main_eq split: sum.splits)
  from all_pairs_KeyError [OF this] obtain c i x where c: "c \<in> set (aggregate df)" and i: "i \<in> set (HPO c)"
    and x: "x \<in> set (map_ancs hpo i)" and none: "information_content (all_ancs (aggregate df)) x = None"
    by auto
  from aggregate_ancs_closed [OF df c i] x have "x \<in> set (ancs c)" by blast
  with c have "x \<in> set (all_ancs (aggregate df))"
    by (auto simp: all_ancs_def)
  with none show False
    by (simp add: information_content_None)
qed

text \<open>
  Claim C7 fails on the code at a table whose concepts are all unknown. The lookup of
  the unknown \<open>X\<close> is empty and raises nothing, and in the table of the cases \<open>w\<close> and
  \<open>x\<close> the run drops \<open>X\<close> and ends with a matrix. In the table whose only concept is
  \<open>X\<close> the division of line 88 raises \<open>ZeroDivisionError\<close> before the warning of line 90
  and the drop of line 91.
\<close>

theorem unknown_only_raises:
  "hpo_ex ''X'' = None \<and> map_ancs hpo_ex ''X'' = [] \<and>
   load hpo_ex input_unknown = Inr [\<lparr>ID = ''x'', HPO = ''X'', ancs = []\<rparr>] \<and>
   main hpo_ex input_unknown = Inl ZeroDivisionError \<and>
   map_sum id (\<lambda>out. (percent_warning out, index (distance out))) (main hpo_ex input_obsolete) =
     Inr (Some 100, [''x''])"
  by (simp add: main_unknown main_obsolete) (simp add: input_unknown_def eval_defs)

text \<open>
  Claim C2. In every run that ends with a matrix, the matrix has one row for each case,
  labelled with the identifiers of the cases in their order, and the cell on the diagonal
  of every row is 0, in the table in memory and in the written lines.
\<close>

theorem diagonal_zero:
  assumes "main hpo input = Inr out"
  shows "\<exists>df. load hpo input = Inr df \<and>
           index (distance out) = map ID (aggregate df) \<and>
           length (cells (distance out)) = length (aggregate df) \<and>
           (\<forall>i<length (aggregate df).
              cells (distance out) ! i ! i = Some 0 \<and> written out ! Suc i ! i = Number 0)"
proof -
  from assms obtain df m where df: "load hpo input = Inr df"
    and m: "all_pairs hpo (information_content (all_ancs (aggregate df)))
          (map HPO (aggregate df)) = Inr m"
    and d: "distance out = \<lparr> index = map ID (aggregate df), columns = [0..<length (aggregate df)],
                             cells = map (\<lambda>i. (map Some (m ! i))[i := Some 0])
                                       [0..<length (aggregate df)] \<rparr>"
    and w: "written out = to_csv False (distance out)"
    by (rule main_InrE)
  let ?n = "length (aggregate df)"
  have len: "length m = ?n" and row: "\<forall>r\<in>set m. length r = ?n"
    using all_pairs_square [OF m] by simp_all
  have diag: "cells (distance out) ! i ! i = Some 0" if "i < ?n" for i
    using that len row by (simp add: d)
  have "written out ! Suc i ! i = Number 0" if "i < ?n" for i
  proof -
    have "written out ! Suc i = map field_of (cells (distance out) ! i)"
      using that by (simp add: w to_csv_def d)
    moreover have "i < length (cells (distance out) ! i)"
      using that len row by (simp add: d)
    ultimately show ?thesis
      using diag [OF that] by (simp add: field_of_def)
  qed
  with diag df show ?thesis
    by (simp add: d)
qed

theorem diagonal_zero_witness:
  "main hpo_ex input_ex = Inr run_ex \<and>
   load hpo_ex input_ex = Inr df_ex \<and>
   index (distance run_ex) = [''x'', ''y''] \<and>
   cells (distance run_ex) ! 0 ! 0 = Some 0 \<and> cells (distance run_ex) ! 1 ! 1 = Some 0 \<and>
   written run_ex ! 1 ! 0 = Number 0 \<and> written run_ex ! 2 ! 1 = Number 0"
proof -
  have n: "length (aggregate df_ex) = 2"
    by (simp add: aggregate_ex)
  from diagonal_zero [OF main_ex] load_ex
  have i: "index (distance run_ex) = map ID (aggregate df_ex)"
    and d: "\<forall>i<2. cells (distance run_ex) ! i ! i = Some 0 \<and> written run_ex ! Suc i ! i = Number 0"
    by (simp_all add: n)
  from d have "cells (distance run_ex) ! 0 ! 0 = Some 0 \<and> written run_ex ! Suc 0 ! 0 = Number 0"
    and "cells (distance run_ex) ! 1 ! 1 = Some 0 \<and> written run_ex ! Suc 1 ! 1 = Number 0"
    by simp_all
  then show ?thesis
    using i main_ex load_ex by (simp add: aggregate_ex numeral_2_eq_2)
qed

lemma traverse_Inr_all:
  "traverse f xs = Inr ys \<Longrightarrow> x \<in> set xs \<Longrightarrow> \<exists>y. f x = Inr y"
  by (induction xs arbitrary: ys) (auto split: sum.splits)

lemma resnik_matrix_defined_iff:
  "(\<exists>m. resnik_matrix hpo IC A B = Inr m) \<longleftrightarrow>
     (\<forall>i\<in>set A. \<forall>j\<in>set B. \<exists>v. mica hpo IC i j = Inr v)"
proof
  assume "\<exists>m. resnik_matrix hpo IC A B = Inr m"
  then obtain m where m: "traverse (\<lambda>i. traverse (\<lambda>j. mica hpo IC i j) B) A = Inr m"
    by (auto simp: resnik_matrix_def)
  show "\<forall>i\<in>set A. \<forall>j\<in>set B. \<exists>v. mica hpo IC i j = Inr v"
  proof (intro ballI)
    fix i j assume i: "i \<in> set A" and j: "j \<in> set B"
    from traverse_Inr_all [OF m i] obtain r where "traverse (\<lambda>j. mica hpo IC i j) B = Inr r"
      by blast
    from traverse_Inr_all [OF this j] show "\<exists>v. mica hpo IC i j = Inr v" .
  qed
next
  assume a: "\<forall>i\<in>set A. \<forall>j\<in>set B. \<exists>v. mica hpo IC i j = Inr v"
  have "\<exists>m. traverse (\<lambda>i. traverse (\<lambda>j. mica hpo IC i j) B) A = Inr m"
  proof (rule traverse_total)
    fix i assume "i \<in> set A"
    with a show "\<exists>r. traverse (\<lambda>j. mica hpo IC i j) B = Inr r"
      by (intro traverse_total) blast
  qed
  then show "\<exists>m. resnik_matrix hpo IC A B = Inr m"
    by (simp add: resnik_matrix_def)
qed

lemma mica_defined_iff:
  "(\<exists>v. mica hpo IC i j = Inr v) \<longleftrightarrow>
     set (map_ancs hpo i) \<inter> set (map_ancs hpo j) \<noteq> {} \<and>
     (\<forall>a \<in> set (map_ancs hpo i) \<inter> set (map_ancs hpo j). IC a \<noteq> None)"
  unfolding mica_Inr by blast

lemma resnik_defined_iff:
  "(\<exists>s. resnik hpo IC A B = Inr s) \<longleftrightarrow>
     (\<forall>i\<in>set A. \<forall>j\<in>set B.
        set (map_ancs hpo i) \<inter> set (map_ancs hpo j) \<noteq> {} \<and>
        (\<forall>a \<in> set (map_ancs hpo i) \<inter> set (map_ancs hpo j). IC a \<noteq> None))"
proof -
  have "(\<exists>s. resnik hpo IC A B = Inr s) \<longleftrightarrow> (\<exists>m. resnik_matrix hpo IC A B = Inr m)"
    by (auto simp: resnik_def split: sum.splits)
  then show ?thesis
    unfolding resnik_matrix_defined_iff mica_defined_iff .
qed

lemma resnik_Nil_left: "resnik hpo IC [] B = Inr 0"
  by (simp add: resnik_def resnik_matrix_def simmax_def DataFrame_def ncols_def
      max_axis0_def max_axis1_def nansum_def)

lemma resnik_matrix_Nil_right: "resnik_matrix hpo IC A [] = Inr (replicate (length A) [])"
  unfolding resnik_matrix_def by (induction A) simp_all

lemma resnik_Nil_right: "resnik hpo IC A [] = Inr 0"
proof -
  have rect: "\<forall>r\<in>set (replicate (length A) ([] :: real list)). length r = 0"
    by simp
  have "max_axis0 (DataFrame (replicate (length A) [])) = []"
    using DataFrame_rect(2) [OF rect] by (simp add: max_axis0_def)
  moreover have "max_axis1 (DataFrame (replicate (length A) [])) = replicate (length A) None"
    using DataFrame_rect(1) [OF rect] by (simp add: max_axis1_def nanmax_Nil)
  ultimately show ?thesis
    by (simp add: resnik_def resnik_matrix_Nil_right simmax_def nansum_Nil nansum_replicate_None)
qed

text \<open>
  Claim C3, amended. The score of two lists is a number exactly when every concept of
  the first list has a common ancestor with every concept of the second and every
  common ancestor has an information content; it is 0 when one of the lists is empty.
  When the information content is known but some pair of concepts has no common
  ancestor, the computation raises \<open>ValueError\<close>: there is no value that stands for an
  undefined score. A case without a mapped concept has no row in the matrix: the rows
  of the matrix are the identifiers of the loaded rows with a non-empty lookup, sorted,
  each once. The matrix of a run is square and every cell of it is a number, so no case
  with a mapped concept loses its row in line 127.
\<close>

theorem similarity_defined:
  "((\<exists>s. resnik hpo IC A B = Inr s) \<longleftrightarrow>
      (\<forall>i\<in>set A. \<forall>j\<in>set B.
         set (map_ancs hpo i) \<inter> set (map_ancs hpo j) \<noteq> {} \<and>
         (\<forall>a \<in> set (map_ancs hpo i) \<inter> set (map_ancs hpo j). IC a \<noteq> None))) \<and>
   resnik hpo IC [] B = Inr 0 \<and> resnik hpo IC A [] = Inr 0 \<and>
   ((\<forall>i\<in>set A. \<forall>j\<in>set B. \<forall>a \<in> set (map_ancs hpo i) \<inter> set (map_ancs hpo j). IC a \<noteq> None) \<longrightarrow>
      (resnik hpo IC A B = Inl ValueError \<longleftrightarrow>
         (\<exists>i\<in>set A. \<exists>j\<in>set B. set (map_ancs hpo i) \<inter> set (map_ancs hpo j) = {}))) \<and>
   (load hpo input = Inr df \<and> main hpo input = Inr out \<longrightarrow>
      index (distance out) =
        sort (remdups (map ID (filter (\<lambda>r. map_ancs hpo (HPO r) \<noteq> []) df))) \<and>
      length (cells (distance out)) = length (index (distance out)) \<and>
      (\<forall>cs\<in>set (cells (distance out)).
         length cs = length (index (distance out)) \<and> None \<notin> set cs))"
proof -
  have run: "index (distance out) =
        sort (remdups (map ID (filter (\<lambda>r. map_ancs hpo (HPO r) \<noteq> []) df))) \<and>
      length (cells (distance out)) = length (index (distance out)) \<and>
      (\<forall>cs\<in>set (cells (distance out)).
         length cs = length (index (distance out)) \<and> None \<notin> set cs)"
    if l: "load hpo input = Inr df" and r: "main hpo input = Inr out"
  proof -
    from r obtain df' m where l': "load hpo input = Inr df'"
      and m': "all_pairs hpo (information_content (all_ancs (aggregate df')))
            (map HPO (aggregate df')) = Inr m"
      and d': "distance out = \<lparr> index = map ID (aggregate df'),
                        columns = [0..<length (aggregate df')],
                        cells = map (\<lambda>i. (map Some (m ! i))[i := Some 0])
                                  [0..<length (aggregate df')] \<rparr>"
      by (rule main_InrE)
    from l l' have eq: "df' = df" by simp
    note m = m' [unfolded eq] and d = d' [unfolded eq]
    have row: "\<forall>r\<in>set m. length r = length (aggregate df)" and len: "length m = length (aggregate df)"
      using all_pairs_square [OF m] by simp_all
    have i: "index (distance out) =
        sort (remdups (map ID (filter (\<lambda>r. map_ancs hpo (HPO r) \<noteq> []) df)))"
      by (simp add: d aggregate_IDs load_drop_unmapped [OF l])
    have n: "length (index (distance out)) = length (aggregate df)"
      by (simp add: d)
    have "length cs = length (aggregate df) \<and> None \<notin> set cs" if "cs \<in> set (cells (distance out))" for cs
    proof -
      from that obtain k where k: "k < length (aggregate df)" and cs: "cs = (map Some (m ! k))[k := Some 0]"
        by (auto simp: d)
      have "length (m ! k) = length (aggregate df)"
        using k len row by simp
      moreover have "cs \<in> set (map (\<lambda>i. (map Some (m ! i))[i := Some 0]) [0..<length (aggregate df)])"
        using that by (simp add: d)
      with zeroed_cells_numbers [of m "length (aggregate df)"] have "None \<notin> set cs"
        by blast
      ultimately show ?thesis
        by (simp add: cs)
    qed
    with i n show ?thesis
      by (simp add: d)
  qed
  have raises: "resnik hpo IC A B = Inl ValueError \<longleftrightarrow>
         (\<exists>i\<in>set A. \<exists>j\<in>set B. set (map_ancs hpo i) \<inter> set (map_ancs hpo j) = {})"
    if known: "\<forall>i\<in>set A. \<forall>j\<in>set B. \<forall>a \<in> set (map_ancs hpo i) \<inter> set (map_ancs hpo j). IC a \<noteq> None"
  proof
    assume "resnik hpo IC A B = Inl ValueError"
    then have "\<not> (\<exists>s. resnik hpo IC A B = Inr s)" by simp
    then show "\<exists>i\<in>set A. \<exists>j\<in>set B. set (map_ancs hpo i) \<inter> set (map_ancs hpo j) = {}"
      unfolding resnik_defined_iff using known by blast
  next
    assume "\<exists>i\<in>set A. \<exists>j\<in>set B. set (map_ancs hpo i) \<inter> set (map_ancs hpo j) = {}"
    then have "\<not> (\<exists>s. resnik hpo IC A B = Inr s)"
      unfolding resnik_defined_iff by blast
    then obtain e where e: "resnik hpo IC A B = Inl e"
      by (cases "resnik hpo IC A B") auto
    then have "e = KeyError \<or> e = ValueError"
      by (rule resnik_error)
    moreover have "e \<noteq> KeyError"
      using e resnik_KeyError known by blast
    ultimately show "resnik hpo IC A B = Inl ValueError"
      using e by simp
  qed
  have c1: "(\<exists>s. resnik hpo IC A B = Inr s) \<longleftrightarrow>
      (\<forall>i\<in>set A. \<forall>j\<in>set B.
         set (map_ancs hpo i) \<inter> set (map_ancs hpo j) \<noteq> {} \<and>
         (\<forall>a \<in> set (map_ancs hpo i) \<inter> set (map_ancs hpo j). IC a \<noteq> None))"
    by (rule resnik_defined_iff)
  have c4: "(\<forall>i\<in>set A. \<forall>j\<in>set B. \<forall>a \<in> set (map_ancs hpo i) \<inter> set (map_ancs hpo j). IC a \<noteq> None) \<longrightarrow>
      (resnik hpo IC A B = Inl ValueError \<longleftrightarrow>
         (\<exists>i\<in>set A. \<exists>j\<in>set B. set (map_ancs hpo i) \<inter> set (map_ancs hpo j) = {}))"
    using raises by (rule impI)
  have c5: "load hpo input = Inr df \<and> main hpo input = Inr out \<longrightarrow>
      index (distance out) =
        sort (remdups (map ID (filter (\<lambda>r. map_ancs hpo (HPO r) \<noteq> []) df))) \<and>
      length (cells (distance out)) = length (index (distance out)) \<and>
      (\<forall>cs\<in>set (cells (distance out)).
         length cs = length (index (distance out)) \<and> None \<notin> set cs)"
  proof
    assume "load hpo input = Inr df \<and> main hpo input = Inr out"
    then show "index (distance out) =
        sort (remdups (map ID (filter (\<lambda>r. map_ancs hpo (HPO r) \<noteq> []) df))) \<and>
      length (cells (distance out)) = length (index (distance out)) \<and>
      (\<forall>cs\<in>set (cells (distance out)).
         length cs = length (index (distance out)) \<and> None \<notin> set cs)"
      using run by (elim conjE)
  qed
  show ?thesis
    by (rule conjI c1 resnik_Nil_left resnik_Nil_right c4 c5)+
qed

theorem similarity_defined_witness:
  "(\<exists>s. resnik hpo_ex IC_ex [''C''] [''B'', ''A''] = Inr s) \<and>
   resnik hpo_ex IC_ex [] [''D''] = Inr 0 \<and> resnik hpo_ex IC_ex [''D''] [] = Inr 0 \<and>
   resnik hpo_ex IC_ex [''C''] [''D''] = Inl ValueError \<and>
   index (distance run_ex) = [''x'', ''y''] \<and>
   length (cells (distance run_ex)) = 2 \<and>
   None \<notin> set (cells (distance run_ex) ! 0) \<and> None \<notin> set (cells (distance run_ex) ! 1) \<and>
   map_sum id (index \<circ> distance) (main hpo_ex input_obsolete) = Inr [''x'']"
proof -
  note t = similarity_defined [of hpo_ex IC_ex "[''C'']" "[''B'', ''A'']" input_ex df_ex run_ex]
  note u = similarity_defined [of hpo_ex IC_ex "[''C'']" "[''D'']"]
  note z = similarity_defined [of hpo_ex IC_ex "[''D'']" "[''D'']"]
  have "\<forall>i\<in>set [''C'']. \<forall>j\<in>set [''B'', ''A''].
          set (map_ancs hpo_ex i) \<inter> set (map_ancs hpo_ex j) \<noteq> {} \<and>
          (\<forall>a \<in> set (map_ancs hpo_ex i) \<inter> set (map_ancs hpo_ex j). IC_ex a \<noteq> None)"
    by (simp add: map_ancs_def hpo_ex_def IC_ex_def)
  with t have a: "\<exists>s. resnik hpo_ex IC_ex [''C''] [''B'', ''A''] = Inr s"
    by blast
  from z have e: "resnik hpo_ex IC_ex [] [''D''] = Inr 0" "resnik hpo_ex IC_ex [''D''] [] = Inr 0"
    by blast+
  have "\<forall>i\<in>set [''C'']. \<forall>j\<in>set [''D'']. \<forall>a \<in> set (map_ancs hpo_ex i) \<inter> set (map_ancs hpo_ex j). IC_ex a \<noteq> None"
    and "\<exists>i\<in>set [''C'']. \<exists>j\<in>set [''D'']. set (map_ancs hpo_ex i) \<inter> set (map_ancs hpo_ex j) = {}"
    by (simp_all add: map_ancs_def hpo_ex_def)
  with u have v: "resnik hpo_ex IC_ex [''C''] [''D''] = Inl ValueError"
    by blast
  from t main_ex load_ex
  have i: "index (distance run_ex) =
        sort (remdups (map ID (filter (\<lambda>r. map_ancs hpo_ex (HPO r) \<noteq> []) df_ex)))"
    and l: "length (cells (distance run_ex)) = length (index (distance run_ex))"
    and c: "\<forall>cs\<in>set (cells (distance run_ex)). length cs = length (index (distance run_ex)) \<and> None \<notin> set cs"
    by blast+
  have i': "index (distance run_ex) = [''x'', ''y'']"
    unfolding i by (simp add: df_ex_def map_ancs_def hpo_ex_def)
  have "cells (distance run_ex) ! 0 \<in> set (cells (distance run_ex))"
    and "cells (distance run_ex) ! 1 \<in> set (cells (distance run_ex))"
    using l i' by simp_all
  with c have "None \<notin> set (cells (distance run_ex) ! 0)" and "None \<notin> set (cells (distance run_ex) ! 1)"
    by blast+
  with a e v i' l show ?thesis
    by (simp add: main_obsolete)
qed

text \<open>
  Claim C3 as stated fails on the code. The concepts \<open>C\<close> and \<open>D\<close> have no common
  ancestor: their score is not a value but the \<open>ValueError\<close> of \<open>max\<close>, and a run over
  two such cases ends with that error.
\<close>

theorem no_common_ancestor_raises:
  "set (map_ancs hpo_ex ''C'') \<inter> set (map_ancs hpo_ex ''D'') = {} \<and>
   resnik hpo_ex IC_ex [''C''] [''D''] = Inl ValueError \<and>
   main hpo_ex input_disjoint = Inl ValueError"
  by (simp add: main_disjoint) (simp add: IC_ex_def eval_defs)

text \<open>
  Claim C8 fails on the code, against the script's own description of its output. The
  written table of the example is a header of column positions and one line of numbers
  for each case. The identifiers \<open>x\<close> and \<open>y\<close> label the rows of the table in memory
  and are not written (\<open>index=False\<close>); the same table under the identifiers \<open>p\<close> and
  \<open>q\<close> is written to the same lines.
\<close>

theorem written_without_identifiers:
  "map_sum id (index \<circ> distance) (main hpo_ex input_ex) = Inr [''x'', ''y''] \<and>
   map_sum id (index \<circ> distance) (main hpo_ex input_renamed) = Inr [''p'', ''q''] \<and>
   map_sum id written (main hpo_ex input_ex) = Inr written_ex \<and>
   map_sum id written (main hpo_ex input_renamed) = Inr written_ex"
  by (simp add: main_ex main_renamed run_ex_def)

end
